theory Spec2Isabelle
  imports Complex_Main "HOL-Library.Word" "HOL-Library.Log_Nat"
begin

section \<open>The hydroponic controller of main.ino\<close>

text \<open>
  The sketch is one translation unit of global variables, interrupt service routines and
  functions called from \<open>loop\<close>. The model is a record of the globals (and the two
  function-local statics), with every function a state transformer. What the functions
  read from outside (the millisecond clock, the result of a publish, the inbound
  subscription) is a parameter; what they send outside (serial lines, publish attempts)
  is appended to the field \<open>trace\<close>; the four LED lines are fields of their own.

  On the ESP32-S2 \<open>unsigned long\<close> has 32 bits and its arithmetic wraps: counters and
  times are \<open>32 word\<close>. The switch states are C \<open>int\<close>s that are only assigned,
  negated with \<open>!\<close> and compared, so they are \<open>int\<close>.

  Not modelled: board bring-up in \<open>setup\<close> (Wi-Fi, the MQTT connection and its retry
  loop) and the square-wave generator \<open>Flowmeter_Trigger\<close>, whose only effect on the
  variables below is through the pulse interrupts it causes.
\<close>

subsection \<open>Output\<close>

datatype feed =
  PumpInFlowFeed | PumpReturnFlowFeed | ReservoirWarn | ReservoirCritical
  | PipeOverflowWarning | PumpOverride

text \<open>A publish attempt with its value and whether the client accepted it; a serial line.\<close>

datatype event = Publish feed int bool | Println string | Print string

datatype pin = LedPump | LedRW | LedRC | LedPOW

subsection \<open>The globals\<close>

record state =
  count1 :: "32 word"
  count2 :: "32 word"
  totalPulse1 :: "32 word"
  totalPulse2 :: "32 word"
  statePumpOverride :: int
  stateHFSWarn :: int
  stateHFSCritical :: int
  stateVFSPipe :: int
  lastPumpState :: int
  lastHFSWarnState :: int
  lastHFSCriticalState :: int
  lastVFSPipeState :: int
  lastPumpDebounce :: "32 word"
  lastWarnDebounce :: "32 word"
  lastCriticalDebounce :: "32 word"
  lastPipeDebounce :: "32 word"
  countUpdate :: "32 word"
  lastUpdateCount :: "32 word"
  triggered :: bool
  trgPump :: bool
  trgHFSWarn :: bool
  trgHFSCritical :: bool
  trgVFSPipe :: bool
  pumpBtnPressed :: bool
  warnBtnPressed :: bool
  criticalBtnPressed :: bool
  pipeBtnPressed :: bool
  firstUpdate :: bool
  lastPrint :: "32 word"
  lastUpdate :: "32 word"
  ledPumpLevel :: bool
  ledRWLevel :: bool
  ledRCLevel :: bool
  ledPOWLevel :: bool
  trace :: "event list"

text \<open>
  The initialisers of lines 100 to 143, the statics of lines 295 and 356 and the LED
  levels written by \<open>setup\<close> (pump HIGH, the three alerts LOW). The trace starts empty:
  it records what \<open>loop\<close> sends.
\<close>

definition init_state :: state where
  "init_state = \<lparr>
     count1 = 0, count2 = 0, totalPulse1 = 0, totalPulse2 = 0,
     statePumpOverride = 1, stateHFSWarn = 0, stateHFSCritical = 0, stateVFSPipe = 0,
     lastPumpState = 0, lastHFSWarnState = 1, lastHFSCriticalState = 1, lastVFSPipeState = 1,
     lastPumpDebounce = 0, lastWarnDebounce = 0, lastCriticalDebounce = 0, lastPipeDebounce = 0,
     countUpdate = 0, lastUpdateCount = 0,
     triggered = False, trgPump = False, trgHFSWarn = False, trgHFSCritical = False,
     trgVFSPipe = False,
     pumpBtnPressed = False, warnBtnPressed = False, criticalBtnPressed = False,
     pipeBtnPressed = False,
     firstUpdate = True, lastPrint = 0, lastUpdate = 0,
     ledPumpLevel = True, ledRWLevel = False, ledRCLevel = False, ledPOWLevel = False,
     trace = [] \<rparr>"

definition debounceDelay :: "32 word" where
  "debounceDelay = 100"

definition HIGH :: int where
  "HIGH = 1"

text \<open>C's \<open>!x\<close> on an \<open>int\<close>.\<close>

definition c_not :: "int \<Rightarrow> int" where
  "c_not x = (if x = 0 then 1 else 0)"

definition println :: "string \<Rightarrow> state \<Rightarrow> state" where
  "println msg s = s\<lparr>trace := trace s @ [Println msg]\<rparr>"

definition print :: "string \<Rightarrow> state \<Rightarrow> state" where
  "print msg s = s\<lparr>trace := trace s @ [Print msg]\<rparr>"

text \<open>
  The pattern \<open>if (!feed.publish(v)) { Serial.println(msg); }\<close>: one attempt, whose
  result \<open>ok\<close> comes from the client, and the line on failure.
\<close>

definition publish :: "feed \<Rightarrow> int \<Rightarrow> bool \<Rightarrow> string \<Rightarrow> state \<Rightarrow> state" where
  "publish f v ok msg s =
     (if \<not> ok then println msg (s\<lparr>trace := trace s @ [Publish f v ok]\<rparr>)
      else s\<lparr>trace := trace s @ [Publish f v ok]\<rparr>)"

text \<open>The value \<open>(int32_t)(x ? 1 : 0)\<close> sent for a switch state.\<close>

definition level01 :: "int \<Rightarrow> int" where
  "level01 x = (if x \<noteq> 0 then 1 else 0)"

subsection \<open>Interrupt service routines\<close>

definition countPulse1 :: "state \<Rightarrow> state" where
  "countPulse1 s = s\<lparr>count1 := count1 s + 1\<rparr>"

definition countPulse2 :: "state \<Rightarrow> state" where
  "countPulse2 s = s\<lparr>count2 := count2 s + 1\<rparr>"

definition PumpBtn_Pressed :: "state \<Rightarrow> state" where
  "PumpBtn_Pressed s = s\<lparr>pumpBtnPressed := True\<rparr>"

definition WarnBtn_Pressed :: "state \<Rightarrow> state" where
  "WarnBtn_Pressed s = s\<lparr>warnBtnPressed := True\<rparr>"

definition CriticalBtn_Pressed :: "state \<Rightarrow> state" where
  "CriticalBtn_Pressed s = s\<lparr>criticalBtnPressed := True\<rparr>"

definition PipeBtn_Pressed :: "state \<Rightarrow> state" where
  "PipeBtn_Pressed s = s\<lparr>pipeBtnPressed := True\<rparr>"

subsection \<open>The LED lines and the interlock\<close>

definition pin_level :: "pin \<Rightarrow> state \<Rightarrow> bool" where
  "pin_level p s = (case p of LedPump \<Rightarrow> ledPumpLevel s | LedRW \<Rightarrow> ledRWLevel s
     | LedRC \<Rightarrow> ledRCLevel s | LedPOW \<Rightarrow> ledPOWLevel s)"

definition set_pin :: "pin \<Rightarrow> bool \<Rightarrow> state \<Rightarrow> state" where
  "set_pin p v s = (case p of LedPump \<Rightarrow> s\<lparr>ledPumpLevel := v\<rparr> | LedRW \<Rightarrow> s\<lparr>ledRWLevel := v\<rparr>
     | LedRC \<Rightarrow> s\<lparr>ledRCLevel := v\<rparr> | LedPOW \<Rightarrow> s\<lparr>ledPOWLevel := v\<rparr>)"

text \<open>
  Lines 266 to 280. The write to \<open>ledPump\<close> raises no interrupt: the
  \<open>attachInterrupt\<close> for that pin (line 572) is commented out.
\<close>

definition ActionPumpControl :: "state \<Rightarrow> state" where
  "ActionPumpControl s =
     (if stateVFSPipe s = HIGH \<or> stateHFSCritical s = HIGH
      then set_pin LedPump False (s\<lparr>lastPumpState := 1, statePumpOverride := 0\<rparr>)
      else s)"

text \<open>
  \<open>digitalWrite\<close> on an LED line. Lines 570 and 571 attach \<open>ActionPumpControl\<close> to the
  RISING edge of \<open>ledRC\<close> and \<open>ledPOW\<close>: a write that takes one of these two lines from
  LOW to HIGH runs the routine, at once, since \<open>loop\<close> writes them with interrupts
  enabled. \<open>loop\<close> itself never calls \<open>ActionPumpControl\<close>.
\<close>

definition digitalWrite :: "pin \<Rightarrow> bool \<Rightarrow> state \<Rightarrow> state" where
  "digitalWrite p v s =
     (if (p = LedRC \<or> p = LedPOW) \<and> \<not> pin_level p s \<and> v
      then ActionPumpControl (set_pin p v s)
      else set_pin p v s)"

subsection \<open>The four switch handlers\<close>

text \<open>
  Lines 202 to 264. \<open>millis()\<close> is read twice, for the test and for the store; the two
  readings are the parameters \<open>now\<close> and \<open>now'\<close>.
\<close>

definition ActionPumpOverride :: "32 word \<Rightarrow> 32 word \<Rightarrow> state \<Rightarrow> state" where
  "ActionPumpOverride now now' s =
     (let s1 =
        (if now - lastPumpDebounce s > debounceDelay \<and> lastPumpState s \<noteq> statePumpOverride s
         then digitalWrite LedPump (c_not (statePumpOverride s) \<noteq> 0)
                (s\<lparr>lastPumpState := statePumpOverride s,
                   statePumpOverride := c_not (statePumpOverride s),
                   trgPump := True, triggered := True\<rparr>)
         else s)
      in s1\<lparr>lastPumpDebounce := now'\<rparr>)"

definition ActionHFSWarn :: "32 word \<Rightarrow> 32 word \<Rightarrow> state \<Rightarrow> state" where
  "ActionHFSWarn now now' s =
     (let s1 =
        (if now - lastWarnDebounce s > debounceDelay \<and> lastHFSWarnState s \<noteq> stateHFSWarn s
         then digitalWrite LedRW (c_not (stateHFSWarn s) \<noteq> 0)
                (s\<lparr>lastHFSWarnState := stateHFSWarn s,
                   stateHFSWarn := c_not (stateHFSWarn s),
                   trgHFSWarn := True, triggered := True\<rparr>)
         else s)
      in s1\<lparr>lastWarnDebounce := now'\<rparr>)"

definition ActionHFSCritical :: "32 word \<Rightarrow> 32 word \<Rightarrow> state \<Rightarrow> state" where
  "ActionHFSCritical now now' s =
     (let s1 =
        (if now - lastCriticalDebounce s > debounceDelay
            \<and> lastHFSCriticalState s \<noteq> stateHFSCritical s
         then digitalWrite LedRC (c_not (stateHFSCritical s) \<noteq> 0)
                (s\<lparr>lastHFSCriticalState := stateHFSCritical s,
                   stateHFSCritical := c_not (stateHFSCritical s),
                   trgHFSCritical := True, triggered := True\<rparr>)
         else s)
      in s1\<lparr>lastCriticalDebounce := now'\<rparr>)"

definition ActionVFSPipe :: "32 word \<Rightarrow> 32 word \<Rightarrow> state \<Rightarrow> state" where
  "ActionVFSPipe now now' s =
     (let s1 =
        (if now - lastPipeDebounce s > debounceDelay \<and> lastVFSPipeState s \<noteq> stateVFSPipe s
         then digitalWrite LedPOW (c_not (stateVFSPipe s) \<noteq> 0)
                (s\<lparr>lastVFSPipeState := stateVFSPipe s,
                   stateVFSPipe := c_not (stateVFSPipe s),
                   trgVFSPipe := True, triggered := True\<rparr>)
         else s)
      in s1\<lparr>lastPipeDebounce := now'\<rparr>)"

text \<open>The clock readings of one pass of \<open>loop\<close>, per function that reads the clock.\<close>

datatype reader = RPump | RWarn | RCritical | RPipe | RFlow | RSensors

type_synonym clock = "reader \<Rightarrow> 32 word \<times> 32 word"

text \<open>Lines 175 to 200.\<close>

definition Action_Btn_Pressed :: "clock \<Rightarrow> state \<Rightarrow> state" where
  "Action_Btn_Pressed clk s =
     (let s1 = (if pumpBtnPressed s
                then (ActionPumpOverride (fst (clk RPump)) (snd (clk RPump)) s)
                       \<lparr>pumpBtnPressed := False\<rparr>
                else s);
          s2 = (if warnBtnPressed s1
                then (ActionHFSWarn (fst (clk RWarn)) (snd (clk RWarn)) s1)
                       \<lparr>warnBtnPressed := False\<rparr>
                else s1);
          s3 = (if criticalBtnPressed s2
                then (ActionHFSCritical (fst (clk RCritical)) (snd (clk RCritical)) s2)
                       \<lparr>criticalBtnPressed := False\<rparr>
                else s2)
      in (if pipeBtnPressed s3
          then (ActionVFSPipe (fst (clk RPipe)) (snd (clk RPipe)) s3)\<lparr>pipeBtnPressed := False\<rparr>
          else s3))"

subsection \<open>Pulses to litres\<close>

text \<open>
  Lines 107, 301 and 302: \<open>unsigned long c1lpm = c1 * litresperpulse;\<close> with
  \<open>float litresperpulse = 7.5\<close>. The count is converted to binary32, multiplied in
  binary32 and the product converted to \<open>unsigned long\<close>, which drops the fraction.

  Binary32 values are modelled as the rationals they denote. \<open>f32_round\<close> rounds a
  rational to 24 significant bits, ties to even. Its arguments here are a pulse count
  and that count times 7.5: they are 0 or lie between 1 and \<open>2 ^ 35\<close>, so neither
  subnormal numbers nor infinities arise, and the case \<open>x < 1\<close> only meets 0.
\<close>

definition litresperpulse :: rat where
  "litresperpulse = 15 / 2"

definition pow2 :: "int \<Rightarrow> rat" where
  "pow2 e = (if 0 \<le> e then 2 ^ nat e else 1 / 2 ^ nat (- e))"

definition round_even :: "rat \<Rightarrow> int" where
  "round_even q =
     (let f = \<lfloor>q\<rfloor>; d = q - of_int f
      in if d < 1 / 2 then f else if 1 / 2 < d then f + 1 else if even f then f else f + 1)"

definition f32_round :: "rat \<Rightarrow> rat" where
  "f32_round x =
     (if x < 1 then x
      else (let e = bitlen \<lfloor>x\<rfloor> - 24 in of_int (round_even (x / pow2 e)) * pow2 e))"

text \<open>
  The conversion of a float to \<open>unsigned long\<close>. C++ defines it only for a value whose
  integer part fits; the model reduces the integer part modulo \<open>2 ^ 32\<close> there, and the
  theorems about converted values keep below that bound.
\<close>

definition to_ulong :: "rat \<Rightarrow> 32 word" where
  "to_ulong x = word_of_int \<lfloor>x\<rfloor>"

definition pulses_to_litres :: "32 word \<Rightarrow> 32 word" where
  "pulses_to_litres c = to_ulong (f32_round (f32_round (of_nat (unat c)) * litresperpulse))"

subsection \<open>Telemetry\<close>

text \<open>
  The critical section of \<open>UpdateFlowMeters\<close>, lines 298 to 307: between
  \<open>noInterrupts()\<close> and \<open>interrupts()\<close> both counters are read, added to the lifetime
  totals and zeroed. The result is the two values read and the state left.
\<close>

definition drain :: "state \<Rightarrow> (32 word \<times> 32 word) \<times> state" where
  "drain s =
     ((count1 s, count2 s),
      s\<lparr>totalPulse1 := totalPulse1 s + count1 s, totalPulse2 := totalPulse2 s + count2 s,
        count1 := 0, count2 := 0\<rparr>)"

type_synonym net = "feed \<Rightarrow> bool"

text \<open>Lines 293 to 326; \<open>ok\<close> gives the results of the two publishes.\<close>

definition UpdateFlowMeters :: "32 word \<Rightarrow> 32 word \<Rightarrow> net \<Rightarrow> state \<Rightarrow> state" where
  "UpdateFlowMeters now now' ok s =
     (if now - lastPrint s \<ge> 30000 \<or> firstUpdate s then
        (let c1 = fst (fst (drain s)); c2 = snd (fst (drain s));
             c1lpm = pulses_to_litres c1; c2lpm = pulses_to_litres c2;
             s1 = snd (drain s);
             s2 = s1\<lparr>countUpdate := countUpdate s1 + 1\<rparr>;
             s3 = publish PumpInFlowFeed (uint c1lpm) (ok PumpInFlowFeed)
                    ''Failed to publish Inflow feed'' s2;
             s4 = s3\<lparr>countUpdate := countUpdate s3 + 1\<rparr>;
             s5 = publish PumpReturnFlowFeed (uint c2lpm) (ok PumpReturnFlowFeed)
                    ''Failed to publish Return flow feed'' s4
         in (print ''.'' s5)\<lparr>lastPrint := now'\<rparr>)
      else s)"

text \<open>
  \<open>UpdateSensors\<close>, lines 328 to 415, in its two blocks. The first (lines 331 to 353)
  runs on the first pass and whenever \<open>triggered\<close> is set, and publishes all four switch
  states; it neither reads nor writes the four \<open>trg\<close> flags.
\<close>

definition sensors_immediate :: "net \<Rightarrow> state \<Rightarrow> state" where
  "sensors_immediate ok s =
     (if firstUpdate s \<or> triggered s then
        (let s0 = s\<lparr>triggered := False\<rparr>;
             s1 = publish PumpOverride (level01 (statePumpOverride s0)) (ok PumpOverride)
                    ''Failed to publish pump status'' (s0\<lparr>countUpdate := countUpdate s0 + 1\<rparr>);
             s2 = publish ReservoirWarn (level01 (stateHFSWarn s1)) (ok ReservoirWarn)
                    ''Failed to publish HFSWarn'' (s1\<lparr>countUpdate := countUpdate s1 + 1\<rparr>);
             s3 = publish ReservoirCritical (level01 (stateHFSCritical s2)) (ok ReservoirCritical)
                    ''Failed to pubish HFSCritical'' (s2\<lparr>countUpdate := countUpdate s2 + 1\<rparr>)
         in publish PipeOverflowWarning (level01 (stateVFSPipe s3)) (ok PipeOverflowWarning)
              ''Failed to publish VFSPipe Overflow'' (s3\<lparr>countUpdate := countUpdate s3 + 1\<rparr>))
      else s)"

text \<open>
  The second block (lines 356 to 414) runs when 5000 ms have passed since it last ran
  and \<open>triggered\<close> is clear. Its four parts, in the order of the source, each publish
  one quantity when its \<open>trg\<close> flag is set and clear the flag whatever the publish
  returned (lines 363 to 371, 373 to 386, 388 to 400 and 402 to 410).
\<close>

definition periodic_warn :: "net \<Rightarrow> state \<Rightarrow> state" where
  "periodic_warn ok s =
     (if trgHFSWarn s then
        (publish ReservoirWarn (level01 (stateHFSWarn s)) (ok ReservoirWarn)
           ''Failed to publish HFSWarn'' (s\<lparr>countUpdate := countUpdate s + 1\<rparr>))
        \<lparr>trgHFSWarn := False\<rparr>
      else s)"

definition periodic_critical :: "net \<Rightarrow> state \<Rightarrow> state" where
  "periodic_critical ok s =
     (if trgHFSCritical s then
        (let p = publish ReservoirCritical (level01 (stateHFSCritical s)) (ok ReservoirCritical)
                   ''Failed to pubish HFSCritical'' (s\<lparr>countUpdate := countUpdate s + 1\<rparr>);
             q = (if stateHFSCritical p = 1 then p\<lparr>trgPump := True\<rparr> else p)
         in q\<lparr>trgHFSCritical := False\<rparr>)
      else s)"

definition periodic_pipe :: "net \<Rightarrow> state \<Rightarrow> state" where
  "periodic_pipe ok s =
     (if trgVFSPipe s then
        (let p = publish PipeOverflowWarning (level01 (stateVFSPipe s)) (ok PipeOverflowWarning)
                   ''Failed to publish VFSPipe Overflow'' (s\<lparr>countUpdate := countUpdate s + 1\<rparr>);
             q = (if stateVFSPipe p = 1 then p\<lparr>trgPump := True\<rparr> else p)
         in q\<lparr>trgVFSPipe := False\<rparr>)
      else s)"

definition periodic_pump :: "net \<Rightarrow> state \<Rightarrow> state" where
  "periodic_pump ok s =
     (if trgPump s then
        (publish PumpOverride (level01 (statePumpOverride s)) (ok PumpOverride)
           ''Failed to publish pump status'' (s\<lparr>countUpdate := countUpdate s + 1\<rparr>))
        \<lparr>trgPump := False\<rparr>
      else s)"

definition sensors_periodic :: "32 word \<Rightarrow> 32 word \<Rightarrow> net \<Rightarrow> state \<Rightarrow> state" where
  "sensors_periodic now now' ok s =
     (if now - lastUpdate s \<ge> 5000 \<and> triggered s = False then
        (print '':''
           (periodic_pump ok (periodic_pipe ok (periodic_critical ok (periodic_warn ok s)))))
        \<lparr>lastUpdate := now'\<rparr>
      else s)"

definition UpdateSensors :: "32 word \<Rightarrow> 32 word \<Rightarrow> net \<Rightarrow> net \<Rightarrow> state \<Rightarrow> state" where
  "UpdateSensors now now' imm per s = sensors_periodic now now' per (sensors_immediate imm s)"

text \<open>The publish results of one pass of \<open>loop\<close>, per block that publishes.\<close>

datatype block = Flow | Immediate | Periodic

type_synonym nets = "block \<Rightarrow> net"

text \<open>Lines 282 to 291.\<close>

definition Update_Feeds :: "clock \<Rightarrow> nets \<Rightarrow> state \<Rightarrow> state" where
  "Update_Feeds clk ok s =
     (let s0 = (if firstUpdate s then println ''First update!'' s else s);
          s1 = UpdateFlowMeters (fst (clk RFlow)) (snd (clk RFlow)) (ok Flow) s0;
          s2 = UpdateSensors (fst (clk RSensors)) (snd (clk RSensors)) (ok Immediate)
                 (ok Periodic) s1
      in s2\<lparr>firstUpdate := False\<rparr>)"

subsection \<open>Remote commands\<close>

text \<open>
  \<open>atoi\<close> of the board's C library on the NUL-terminated payload: leading white
  space, an optional sign, then decimal digits up to the first other character; 0 when
  there is no digit. The library computes it as \<open>(int) strtol(s, NULL, 10)\<close>, and
  \<open>strtol\<close> replaces a number beyond the 32-bit \<open>long\<close> by \<open>LONG_MAX\<close> or \<open>LONG_MIN\<close>.
\<close>

definition isspace :: "char \<Rightarrow> bool" where
  "isspace c = (of_char c = (32::nat) \<or> (9 \<le> (of_char c :: nat) \<and> (of_char c :: nat) \<le> 13))"

definition isdigit :: "char \<Rightarrow> bool" where
  "isdigit c = (48 \<le> (of_char c :: nat) \<and> (of_char c :: nat) \<le> 57)"

fun digits_value :: "string \<Rightarrow> int \<Rightarrow> int" where
  "digits_value [] acc = acc"
| "digits_value (c # cs) acc =
     (if isdigit c then digits_value cs (10 * acc + (int (of_char c) - 48)) else acc)"

definition saturate :: "int \<Rightarrow> int" where
  "saturate x = max (- (2 ^ 31)) (min (2 ^ 31 - 1) x)"

definition atoi :: "string \<Rightarrow> int" where
  "atoi str =
     saturate
       (case dropWhile isspace str of
          [] \<Rightarrow> 0
        | c # cs \<Rightarrow>
            if c = CHR ''-'' then - digits_value cs 0
            else if c = CHR ''+'' then digits_value cs 0
            else digits_value (c # cs) 0)"

text \<open>
  What \<open>mqtt.readSubscription(500)\<close> returned, when it is not null: the pump-override
  subscription with the payload in its \<open>lastread\<close> buffer, or another subscription.
\<close>

datatype subscription = PumpOverrideSub string | OtherSub

text \<open>
  Lines 476 to 518, from the result of \<open>readSubscription\<close> on (the reconnect and
  \<open>processPackets\<close> before it belong to the MQTT client).
\<close>

definition readbackMQTT :: "subscription option \<Rightarrow> state \<Rightarrow> state" where
  "readbackMQTT sub s =
     (case sub of
        None \<Rightarrow> s
      | Some OtherSub \<Rightarrow>
          println ''Unknown subscription received.'' (println ''Received something via MQTT.'' s)
      | Some (PumpOverrideSub payload) \<Rightarrow>
          (let s1 = println payload (print ''Payload: '' (println ''pumpOverrideSub triggered''
                      (println ''Received something via MQTT.'' s)));
               val = atoi payload
           in if statePumpOverride s1 \<noteq> val
              then (digitalWrite LedPump (val \<noteq> 0)
                      (s1\<lparr>statePumpOverride := val, lastPumpState := c_not val\<rparr>))
                   \<lparr>trgPump := True, triggered := True\<rparr>
              else s1))"

subsection \<open>The main loop\<close>

datatype isr =
  CountPulse1 | CountPulse2 | PumpBtn | WarnBtn | CriticalBtn | PipeBtn

fun serve :: "isr \<Rightarrow> state \<Rightarrow> state" where
  "serve CountPulse1 s = countPulse1 s"
| "serve CountPulse2 s = countPulse2 s"
| "serve PumpBtn s = PumpBtn_Pressed s"
| "serve WarnBtn s = WarnBtn_Pressed s"
| "serve CriticalBtn s = CriticalBtn_Pressed s"
| "serve PipeBtn s = PipeBtn_Pressed s"

fun serve_all :: "isr list \<Rightarrow> state \<Rightarrow> state" where
  "serve_all [] s = s"
| "serve_all (i # is) s = serve_all is (serve i s)"

text \<open>
  What one pass of \<open>loop\<close> meets: the inbound subscription, the interrupts served before
  \<open>Action_Btn_Pressed\<close> looks at the button flags and those served between it and
  \<open>Update_Feeds\<close> (interrupts served later are the early ones of the next pass), the
  clock readings and the publish results.
\<close>

record env =
  inbound :: "subscription option"
  early :: "isr list"
  late :: "isr list"
  millis :: clock
  sent :: nets

text \<open>Lines 575 to 590.\<close>

definition loop :: "env \<Rightarrow> state \<Rightarrow> state" where
  "loop e s =
     (let s1 = readbackMQTT (inbound e) s;
          s2 = Action_Btn_Pressed (millis e) (serve_all (early e) s1);
          s3 = Update_Feeds (millis e) (sent e) (serve_all (late e) s2)
      in if lastUpdateCount s3 < countUpdate s3
         then s3\<lparr>lastUpdateCount := countUpdate s3\<rparr> else s3)"

fun run :: "env list \<Rightarrow> state \<Rightarrow> state" where
  "run [] s = s"
| "run (e # es) s = run es (loop e s)"

section \<open>Notions used by the properties\<close>

subsection \<open>Commands\<close>

text \<open>
  A payload has a number at its head when a decimal digit stands there, after white
  space and an optional sign: then \<open>atoi\<close> has digits to read.
\<close>

definition leading_number :: "string \<Rightarrow> bool" where
  "leading_number str =
     (case dropWhile isspace str of
        [] \<Rightarrow> False
      | c # cs \<Rightarrow>
          if c = CHR ''-'' \<or> c = CHR ''+'' then (case cs of [] \<Rightarrow> False | d # _ \<Rightarrow> isdigit d)
          else isdigit c)"

text \<open>
  A payload is parseable as an integer when, after white space and an optional sign, it
  consists of decimal digits, at least one, and of nothing else.
\<close>

definition parseable :: "string \<Rightarrow> bool" where
  "parseable str =
     (case dropWhile isspace str of
        [] \<Rightarrow> False
      | c # cs \<Rightarrow>
          if c = CHR ''-'' \<or> c = CHR ''+'' then cs \<noteq> [] \<and> list_all isdigit cs
          else list_all isdigit (c # cs))"

text \<open>The four serial lines that \<open>readbackMQTT\<close> writes for a pump-override payload.\<close>

definition command_log :: "string \<Rightarrow> event list" where
  "command_log payload =
     [Println ''Received something via MQTT.'', Println ''pumpOverrideSub triggered'',
      Print ''Payload: '', Println payload]"

text \<open>
  The remote command handler as the specification words it (section 4.5): the payload is
  parsed as an integer, treated as a boolean level and fed into the debounced input that
  backs the pump channel. In the source that input is \<open>ActionPumpOverride\<close>, which
  takes a press and commits the opposite level once the debounce window has passed; a
  level equal to the stable one asks for no change.
\<close>

definition spec_onCommand :: "string \<Rightarrow> 32 word \<Rightarrow> 32 word \<Rightarrow> state \<Rightarrow> state" where
  "spec_onCommand payload now now' s =
     (if (atoi payload \<noteq> 0) \<noteq> (statePumpOverride s \<noteq> 0)
      then ActionPumpOverride now now' s else s)"

text \<open>A pass of \<open>loop\<close> brings a remote command whose integer is 0 or 1, or none.\<close>

definition boolean_command :: "env \<Rightarrow> bool" where
  "boolean_command e =
     (case inbound e of
        Some (PumpOverrideSub payload) \<Rightarrow> atoi payload = 0 \<or> atoi payload = 1
      | _ \<Rightarrow> True)"

text \<open>
  A pass of \<open>loop\<close> brings a pump command: the pump button's interrupt, or a payload on
  the pump-override subscription.
\<close>

definition pump_command :: "env \<Rightarrow> bool" where
  "pump_command e =
     (PumpBtn \<in> set (early e) \<or> PumpBtn \<in> set (late e) \<or>
      (case inbound e of Some (PumpOverrideSub payload) \<Rightarrow> True | _ \<Rightarrow> False))"

subsection \<open>The four channels\<close>

datatype channel = Pump | Warn | Critical | Pipe

fun Action :: "channel \<Rightarrow> 32 word \<Rightarrow> 32 word \<Rightarrow> state \<Rightarrow> state" where
  "Action Pump = ActionPumpOverride"
| "Action Warn = ActionHFSWarn"
| "Action Critical = ActionHFSCritical"
| "Action Pipe = ActionVFSPipe"

text \<open>The stable level of a channel, its previous level, its timer and its dirty flag.\<close>

fun stable_level :: "channel \<Rightarrow> state \<Rightarrow> int" where
  "stable_level Pump s = statePumpOverride s"
| "stable_level Warn s = stateHFSWarn s"
| "stable_level Critical s = stateHFSCritical s"
| "stable_level Pipe s = stateVFSPipe s"

fun previous :: "channel \<Rightarrow> state \<Rightarrow> int" where
  "previous Pump s = lastPumpState s"
| "previous Warn s = lastHFSWarnState s"
| "previous Critical s = lastHFSCriticalState s"
| "previous Pipe s = lastVFSPipeState s"

fun lastDebounce :: "channel \<Rightarrow> state \<Rightarrow> 32 word" where
  "lastDebounce Pump s = lastPumpDebounce s"
| "lastDebounce Warn s = lastWarnDebounce s"
| "lastDebounce Critical s = lastCriticalDebounce s"
| "lastDebounce Pipe s = lastPipeDebounce s"

fun flag :: "channel \<Rightarrow> state \<Rightarrow> bool" where
  "flag Pump s = trgPump s"
| "flag Warn s = trgHFSWarn s"
| "flag Critical s = trgHFSCritical s"
| "flag Pipe s = trgVFSPipe s"





subsection \<open>The pairs of state and last state\<close>

text \<open>Exactly one of the two is zero.\<close>

definition complementary :: "int \<Rightarrow> int \<Rightarrow> bool" where
  "complementary lst st = ((lst = 0) = (st \<noteq> 0))"

definition pairs_complementary :: "state \<Rightarrow> bool" where
  "pairs_complementary s =
     (complementary (lastPumpState s) (statePumpOverride s) \<and>
      complementary (lastHFSWarnState s) (stateHFSWarn s) \<and>
      complementary (lastHFSCriticalState s) (stateHFSCritical s) \<and>
      complementary (lastVFSPipeState s) (stateVFSPipe s))"

text \<open>The C expression \<open>lastState == !state\<close> on each of the four pairs.\<close>

definition pairs_negated :: "state \<Rightarrow> bool" where
  "pairs_negated s =
     (lastPumpState s = c_not (statePumpOverride s) \<and>
      lastHFSWarnState s = c_not (stateHFSWarn s) \<and>
      lastHFSCriticalState s = c_not (stateHFSCritical s) \<and>
      lastVFSPipeState s = c_not (stateVFSPipe s))"

definition float_pairs_negated :: "state \<Rightarrow> bool" where
  "float_pairs_negated s =
     (lastHFSWarnState s = c_not (stateHFSWarn s) \<and>
      lastHFSCriticalState s = c_not (stateHFSCritical s) \<and>
      lastVFSPipeState s = c_not (stateVFSPipe s))"

text \<open>The same on one pair, with a state that is 0 or 1.\<close>

definition negated_boolean :: "int \<Rightarrow> int \<Rightarrow> bool" where
  "negated_boolean lst st = ((st = 0 \<or> st = 1) \<and> lst = c_not st)"

definition switch_pairs :: "state \<Rightarrow> bool" where
  "switch_pairs s =
     (complementary (lastPumpState s) (statePumpOverride s) \<and>
      negated_boolean (lastHFSWarnState s) (stateHFSWarn s) \<and>
      negated_boolean (lastHFSCriticalState s) (stateHFSCritical s) \<and>
      negated_boolean (lastVFSPipeState s) (stateVFSPipe s))"

definition pump_pair :: "state \<Rightarrow> bool" where
  "pump_pair s = negated_boolean (lastPumpState s) (statePumpOverride s)"

subsection \<open>The interlock\<close>

definition pins_follow :: "state \<Rightarrow> bool" where
  "pins_follow s =
     (ledRCLevel s = (stateHFSCritical s = 1) \<and> ledPOWLevel s = (stateVFSPipe s = 1))"

definition pump_off :: "state \<Rightarrow> bool" where
  "pump_off s = (statePumpOverride s = 0 \<and> \<not> ledPumpLevel s)"

text \<open>Between \<open>s\<close> and \<open>s'\<close> the critical level or the overflow level went from 0 to 1.\<close>

definition hazard_raised :: "state \<Rightarrow> state \<Rightarrow> bool" where
  "hazard_raised s s' =
     ((stateHFSCritical s = 0 \<and> stateHFSCritical s' = 1) \<or>
      (stateVFSPipe s = 0 \<and> stateVFSPipe s' = 1))"

definition idle_off :: "state \<Rightarrow> bool" where
  "idle_off s = (statePumpOverride s = 0 \<and> \<not> pumpBtnPressed s)"

text \<open>Projections of the state, for the functions that leave them alone.\<close>

definition switches ::
  "state \<Rightarrow> (int \<times> int \<times> bool) \<times> (int \<times> int \<times> bool) \<times> (int \<times> int \<times> bool)
     \<times> (int \<times> int \<times> bool)" where
  "switches s =
     ((statePumpOverride s, lastPumpState s, ledPumpLevel s),
      (stateHFSWarn s, lastHFSWarnState s, ledRWLevel s),
      (stateHFSCritical s, lastHFSCriticalState s, ledRCLevel s),
      (stateVFSPipe s, lastVFSPipeState s, ledPOWLevel s))"

definition hz :: "state \<Rightarrow> (int \<times> bool) \<times> (int \<times> bool)" where
  "hz s = ((stateHFSCritical s, ledRCLevel s), (stateVFSPipe s, ledPOWLevel s))"

definition pm :: "state \<Rightarrow> int \<times> bool" where
  "pm s = (statePumpOverride s, ledPumpLevel s)"

text \<open>The assertions along one pass of \<open>loop\<close>, from the levels \<open>c0\<close> and \<open>p0\<close> at its start.\<close>

definition before_hazards :: "int \<Rightarrow> int \<Rightarrow> state \<Rightarrow> bool" where
  "before_hazards c0 p0 x =
     (pins_follow x \<and> stateHFSCritical x = c0 \<and> stateVFSPipe x = p0)"

definition after_critical :: "int \<Rightarrow> int \<Rightarrow> state \<Rightarrow> bool" where
  "after_critical c0 p0 x =
     (pins_follow x \<and> stateVFSPipe x = p0 \<and>
      (c0 = 0 \<and> stateHFSCritical x = 1 \<longrightarrow> pump_off x))"

definition after_pipe :: "int \<Rightarrow> int \<Rightarrow> state \<Rightarrow> bool" where
  "after_pipe c0 p0 x =
     ((c0 = 0 \<and> stateHFSCritical x = 1) \<or> (p0 = 0 \<and> stateVFSPipe x = 1) \<longrightarrow> pump_off x)"

text \<open>
  The assertions along a pass that brings no pump command, from the pump state \<open>p0\<close> and
  the levels \<open>c0\<close> and \<open>q0\<close> at its start: up to the critical handler, after it, and from
  the overflow handler on.
\<close>

definition pump_waiting :: "int \<Rightarrow> int \<Rightarrow> int \<Rightarrow> state \<Rightarrow> bool" where
  "pump_waiting p0 c0 q0 x =
     (statePumpOverride x = p0 \<and> pumpBtnPressed x = False \<and>
      stateHFSCritical x = c0 \<and> stateVFSPipe x = q0)"

definition pump_as_before :: "int \<Rightarrow> int \<Rightarrow> int \<Rightarrow> state \<Rightarrow> bool" where
  "pump_as_before p0 c0 q0 x =
     (statePumpOverride x = p0 \<and> stateHFSCritical x = c0 \<and> stateVFSPipe x = q0)"

definition kept_or_critical :: "int \<Rightarrow> int \<Rightarrow> int \<Rightarrow> state \<Rightarrow> bool" where
  "kept_or_critical p0 c0 q0 x =
     (stateVFSPipe x = q0 \<and>
      (statePumpOverride x = p0 \<or> (c0 = 0 \<and> stateHFSCritical x = 1)))"

definition kept_or_raised :: "int \<Rightarrow> int \<Rightarrow> int \<Rightarrow> state \<Rightarrow> bool" where
  "kept_or_raised p0 c0 q0 x =
     (statePumpOverride x = p0 \<or> (c0 = 0 \<and> stateHFSCritical x = 1)
      \<or> (q0 = 0 \<and> stateVFSPipe x = 1))"

subsection \<open>Counters\<close>

text \<open>
  Operations on the pulse counters: an edge on either flow line (the interrupt
  routines) and the drain of the sampling window.
\<close>

datatype counter_op = OnEdge1 | OnEdge2 | Drain

fun apply_op :: "counter_op \<Rightarrow> state \<Rightarrow> state" where
  "apply_op OnEdge1 s = countPulse1 s"
| "apply_op OnEdge2 s = countPulse2 s"
| "apply_op Drain s = snd (drain s)"

fun after_ops :: "counter_op list \<Rightarrow> state \<Rightarrow> state" where
  "after_ops [] s = s"
| "after_ops (x # xs) s = after_ops xs (apply_op x s)"

text \<open>The values the drains of a sequence returned, in order.\<close>

fun drained :: "counter_op list \<Rightarrow> state \<Rightarrow> (32 word \<times> 32 word) list" where
  "drained [] s = []"
| "drained (Drain # xs) s = fst (drain s) # drained xs (snd (drain s))"
| "drained (x # xs) s = drained xs (apply_op x s)"

definition drained_sum1 :: "counter_op list \<Rightarrow> state \<Rightarrow> nat" where
  "drained_sum1 xs s = sum_list (map (\<lambda>d. unat (fst d)) (drained xs s))"

definition drained_sum2 :: "counter_op list \<Rightarrow> state \<Rightarrow> nat" where
  "drained_sum2 xs s = sum_list (map (\<lambda>d. unat (snd d)) (drained xs s))"

subsection \<open>What is sent\<close>

text \<open>The line the source prints when a publish on the feed fails.\<close>

definition failure_line :: "feed \<Rightarrow> string" where
  "failure_line f = (case f of
       PumpInFlowFeed \<Rightarrow> ''Failed to publish Inflow feed''
     | PumpReturnFlowFeed \<Rightarrow> ''Failed to publish Return flow feed''
     | ReservoirWarn \<Rightarrow> ''Failed to publish HFSWarn''
     | ReservoirCritical \<Rightarrow> ''Failed to pubish HFSCritical''
     | PipeOverflowWarning \<Rightarrow> ''Failed to publish VFSPipe Overflow''
     | PumpOverride \<Rightarrow> ''Failed to publish pump status'')"

text \<open>One publish attempt, and its line if it failed.\<close>

definition attempt :: "feed \<Rightarrow> int \<Rightarrow> net \<Rightarrow> event list" where
  "attempt f v ok = Publish f v (ok f) # (if ok f then [] else [Println (failure_line f)])"

definition given :: "bool \<Rightarrow> event list \<Rightarrow> event list" where
  "given b es = (if b then es else [])"

text \<open>
  The pump state is due in the periodic block when its flag is set, or when the block
  has just published an active critical or overflow level (lines 381 to 384 and 395 to
  398).
\<close>

definition pump_due :: "state \<Rightarrow> bool" where
  "pump_due s = (trgPump s \<or> (trgHFSCritical s \<and> stateHFSCritical s = 1)
                 \<or> (trgVFSPipe s \<and> stateVFSPipe s = 1))"

definition flow_events :: "net \<Rightarrow> state \<Rightarrow> event list" where
  "flow_events ok s =
     attempt PumpInFlowFeed (uint (pulses_to_litres (count1 s))) ok
     @ attempt PumpReturnFlowFeed (uint (pulses_to_litres (count2 s))) ok
     @ [Print ''.'']"

definition immediate_events :: "net \<Rightarrow> state \<Rightarrow> event list" where
  "immediate_events ok s =
     attempt PumpOverride (level01 (statePumpOverride s)) ok
     @ attempt ReservoirWarn (level01 (stateHFSWarn s)) ok
     @ attempt ReservoirCritical (level01 (stateHFSCritical s)) ok
     @ attempt PipeOverflowWarning (level01 (stateVFSPipe s)) ok"

definition periodic_events :: "net \<Rightarrow> state \<Rightarrow> event list" where
  "periodic_events ok s =
     given (trgHFSWarn s) (attempt ReservoirWarn (level01 (stateHFSWarn s)) ok)
     @ given (trgHFSCritical s) (attempt ReservoirCritical (level01 (stateHFSCritical s)) ok)
     @ given (trgVFSPipe s) (attempt PipeOverflowWarning (level01 (stateVFSPipe s)) ok)
     @ given (pump_due s) (attempt PumpOverride (level01 (statePumpOverride s)) ok)
     @ [Print '':'']"

text \<open>How often a feed was published in a trace, and the attempts of a trace without
  their results.\<close>

fun published :: "feed \<Rightarrow> event list \<Rightarrow> nat" where
  "published f [] = 0"
| "published f (Publish g v ok # es) = (if g = f then 1 else 0) + published f es"
| "published f (e # es) = published f es"

fun attempts :: "event list \<Rightarrow> (feed \<times> int) list" where
  "attempts [] = []"
| "attempts (Publish g v ok # es) = (g, v) # attempts es"
| "attempts (e # es) = attempts es"

text \<open>The state in which a pass of \<open>loop\<close> calls \<open>Update_Feeds\<close>.\<close>

definition before_feeds :: "env \<Rightarrow> state \<Rightarrow> state" where
  "before_feeds e s =
     serve_all (late e)
       (Action_Btn_Pressed (millis e) (serve_all (early e) (readbackMQTT (inbound e) s)))"

text \<open>
  Before the first call of \<open>Update_Feeds\<close>: nothing has been published, the first-pass
  flag is set and the periodic block has not run.
\<close>

definition fresh :: "state \<Rightarrow> bool" where
  "fresh s = (firstUpdate s \<and> lastUpdate s = 0 \<and> (\<forall>f. published f (trace s) = 0))"

text \<open>The four feeds of the switch states.\<close>

definition switch_feed :: "feed \<Rightarrow> bool" where
  "switch_feed f = (f = PumpOverride \<or> f = ReservoirWarn \<or> f = ReservoirCritical
     \<or> f = PipeOverflowWarning)"

subsection \<open>Example passes\<close>

text \<open>
  Publish results: every publish accepted, every publish rejected. Then a pass at time
  \<open>t\<close> in which nothing arrives and every publish succeeds; the same with one
  interrupt before the buttons are looked at; the same with a remote payload; and a pass
  with one interrupt in which every publish fails.
\<close>

definition accepted :: net where
  "accepted f = True"

definition rejected :: net where
  "rejected f = False"

definition quiet :: "32 word \<Rightarrow> env" where
  "quiet t = \<lparr>inbound = None, early = [], late = [], millis = (\<lambda>r. (t, t)),
     sent = (\<lambda>b f. True)\<rparr>"

definition pressing :: "isr \<Rightarrow> 32 word \<Rightarrow> env" where
  "pressing i t = \<lparr>inbound = None, early = [i], late = [], millis = (\<lambda>r. (t, t)),
     sent = (\<lambda>b f. True)\<rparr>"

definition commanding :: "string \<Rightarrow> 32 word \<Rightarrow> env" where
  "commanding payload t = \<lparr>inbound = Some (PumpOverrideSub payload), early = [], late = [],
     millis = (\<lambda>r. (t, t)), sent = (\<lambda>b f. True)\<rparr>"

definition pressing_offline :: "isr \<Rightarrow> 32 word \<Rightarrow> env" where
  "pressing_offline i t = \<lparr>inbound = None, early = [i], late = [], millis = (\<lambda>r. (t, t)),
     sent = (\<lambda>b f. False)\<rparr>"

section \<open>Properties\<close>

subsection \<open>The functions in closed form\<close>

lemma ActionPumpOverride_eq:
  "ActionPumpOverride now now' s =
     (if debounceDelay < now - lastPumpDebounce s \<and> lastPumpState s \<noteq> statePumpOverride s
      then s\<lparr>lastPumpState := statePumpOverride s,
             statePumpOverride := c_not (statePumpOverride s),
             trgPump := True, triggered := True,
             ledPumpLevel := (statePumpOverride s = 0), lastPumpDebounce := now'\<rparr>
      else s\<lparr>lastPumpDebounce := now'\<rparr>)"
  by (simp add: ActionPumpOverride_def digitalWrite_def set_pin_def c_not_def)

lemma ActionHFSWarn_eq:
  "ActionHFSWarn now now' s =
     (if debounceDelay < now - lastWarnDebounce s \<and> lastHFSWarnState s \<noteq> stateHFSWarn s
      then s\<lparr>lastHFSWarnState := stateHFSWarn s,
             stateHFSWarn := c_not (stateHFSWarn s),
             trgHFSWarn := True, triggered := True,
             ledRWLevel := (stateHFSWarn s = 0), lastWarnDebounce := now'\<rparr>
      else s\<lparr>lastWarnDebounce := now'\<rparr>)"
  by (simp add: ActionHFSWarn_def digitalWrite_def set_pin_def c_not_def)

text \<open>
  The two hazard handlers: when the commit takes the LED line from LOW to HIGH, the
  interrupt routine \<open>ActionPumpControl\<close> runs inside the write and switches the pump
  off.
\<close>

lemma ActionHFSCritical_eq:
  "ActionHFSCritical now now' s =
     (if debounceDelay < now - lastCriticalDebounce s
         \<and> lastHFSCriticalState s \<noteq> stateHFSCritical s
      then (if stateHFSCritical s = 0 \<and> \<not> ledRCLevel s
            then s\<lparr>lastHFSCriticalState := 0, stateHFSCritical := 1,
                   trgHFSCritical := True, triggered := True, ledRCLevel := True,
                   lastPumpState := 1, statePumpOverride := 0, ledPumpLevel := False,
                   lastCriticalDebounce := now'\<rparr>
            else s\<lparr>lastHFSCriticalState := stateHFSCritical s,
                   stateHFSCritical := c_not (stateHFSCritical s),
                   trgHFSCritical := True, triggered := True,
                   ledRCLevel := (stateHFSCritical s = 0), lastCriticalDebounce := now'\<rparr>)
      else s\<lparr>lastCriticalDebounce := now'\<rparr>)"
  by (simp add: ActionHFSCritical_def digitalWrite_def set_pin_def pin_level_def c_not_def
      ActionPumpControl_def HIGH_def)

lemma ActionVFSPipe_eq:
  "ActionVFSPipe now now' s =
     (if debounceDelay < now - lastPipeDebounce s \<and> lastVFSPipeState s \<noteq> stateVFSPipe s
      then (if stateVFSPipe s = 0 \<and> \<not> ledPOWLevel s
            then s\<lparr>lastVFSPipeState := 0, stateVFSPipe := 1,
                   trgVFSPipe := True, triggered := True, ledPOWLevel := True,
                   lastPumpState := 1, statePumpOverride := 0, ledPumpLevel := False,
                   lastPipeDebounce := now'\<rparr>
            else s\<lparr>lastVFSPipeState := stateVFSPipe s,
                   stateVFSPipe := c_not (stateVFSPipe s),
                   trgVFSPipe := True, triggered := True,
                   ledPOWLevel := (stateVFSPipe s = 0), lastPipeDebounce := now'\<rparr>)
      else s\<lparr>lastPipeDebounce := now'\<rparr>)"
  by (simp add: ActionVFSPipe_def digitalWrite_def set_pin_def pin_level_def c_not_def
      ActionPumpControl_def HIGH_def)

text \<open>What the handler does with a pump-override payload, in one equation.\<close>

lemma readback_pump:
  "readbackMQTT (Some (PumpOverrideSub payload)) s =
     (if statePumpOverride s \<noteq> atoi payload
      then s\<lparr>statePumpOverride := atoi payload, lastPumpState := c_not (atoi payload),
             ledPumpLevel := (atoi payload \<noteq> 0), trgPump := True, triggered := True,
             trace := trace s @ command_log payload\<rparr>
      else s\<lparr>trace := trace s @ command_log payload\<rparr>)"
  by (simp add: readbackMQTT_def Let_def println_def print_def digitalWrite_def set_pin_def
      command_log_def)

lemma subscription_cases:
  obtains "sub = None" | "sub = Some OtherSub"
  | payload where "sub = Some (PumpOverrideSub payload)"
  by (cases sub) (auto intro: subscription.exhaust)

lemma publish_attempt:
  "publish f v (ok f) (failure_line f) s = s\<lparr>trace := trace s @ attempt f v ok\<rparr>"
  by (simp add: publish_def attempt_def println_def)

lemma failure_lines:
  "''Failed to publish Inflow feed'' = failure_line PumpInFlowFeed"
  "''Failed to publish Return flow feed'' = failure_line PumpReturnFlowFeed"
  "''Failed to publish HFSWarn'' = failure_line ReservoirWarn"
  "''Failed to pubish HFSCritical'' = failure_line ReservoirCritical"
  "''Failed to publish VFSPipe Overflow'' = failure_line PipeOverflowWarning"
  "''Failed to publish pump status'' = failure_line PumpOverride"
  by (simp_all add: failure_line_def)

lemma UpdateFlowMeters_eq:
  "UpdateFlowMeters now now' ok s =
     (if 30000 \<le> now - lastPrint s \<or> firstUpdate s
      then s\<lparr>totalPulse1 := totalPulse1 s + count1 s, totalPulse2 := totalPulse2 s + count2 s,
             count1 := 0, count2 := 0, countUpdate := countUpdate s + 2,
             trace := trace s @ flow_events ok s, lastPrint := now'\<rparr>
      else s)"
  unfolding UpdateFlowMeters_def failure_lines publish_attempt
  by (simp add: Let_def drain_def print_def flow_events_def)

lemma sensors_immediate_eq:
  "sensors_immediate ok s =
     (if firstUpdate s \<or> triggered s
      then s\<lparr>triggered := False, countUpdate := countUpdate s + 4,
             trace := trace s @ immediate_events ok s\<rparr>
      else s)"
  unfolding sensors_immediate_def failure_lines publish_attempt
  by (simp add: Let_def immediate_events_def)

lemma periodic_warn_eq:
  "periodic_warn ok s =
     s\<lparr>trgHFSWarn := False, countUpdate := countUpdate s + of_bool (trgHFSWarn s),
       trace := trace s
         @ given (trgHFSWarn s) (attempt ReservoirWarn (level01 (stateHFSWarn s)) ok)\<rparr>"
  unfolding periodic_warn_def failure_lines publish_attempt
  by (cases "trgHFSWarn s") (simp_all add: given_def)

lemma periodic_critical_eq:
  "periodic_critical ok s =
     s\<lparr>trgHFSCritical := False,
       trgPump := (trgPump s \<or> (trgHFSCritical s \<and> stateHFSCritical s = 1)),
       countUpdate := countUpdate s + of_bool (trgHFSCritical s),
       trace := trace s @ given (trgHFSCritical s)
                  (attempt ReservoirCritical (level01 (stateHFSCritical s)) ok)\<rparr>"
  unfolding periodic_critical_def failure_lines publish_attempt
  by (cases "trgHFSCritical s") (simp_all add: given_def Let_def)

lemma periodic_pipe_eq:
  "periodic_pipe ok s =
     s\<lparr>trgVFSPipe := False,
       trgPump := (trgPump s \<or> (trgVFSPipe s \<and> stateVFSPipe s = 1)),
       countUpdate := countUpdate s + of_bool (trgVFSPipe s),
       trace := trace s @ given (trgVFSPipe s)
                  (attempt PipeOverflowWarning (level01 (stateVFSPipe s)) ok)\<rparr>"
  unfolding periodic_pipe_def failure_lines publish_attempt
  by (cases "trgVFSPipe s") (simp_all add: given_def Let_def)

lemma periodic_pump_eq:
  "periodic_pump ok s =
     s\<lparr>trgPump := False, countUpdate := countUpdate s + of_bool (trgPump s),
       trace := trace s
         @ given (trgPump s) (attempt PumpOverride (level01 (statePumpOverride s)) ok)\<rparr>"
  unfolding periodic_pump_def failure_lines publish_attempt
  by (cases "trgPump s") (simp_all add: given_def)

lemma sensors_periodic_eq:
  "sensors_periodic now now' ok s =
     (if 5000 \<le> now - lastUpdate s \<and> \<not> triggered s
      then s\<lparr>trgHFSWarn := False, trgHFSCritical := False, trgVFSPipe := False,
             trgPump := False,
             countUpdate := countUpdate s + of_bool (trgHFSWarn s) + of_bool (trgHFSCritical s)
                + of_bool (trgVFSPipe s) + of_bool (pump_due s),
             trace := trace s @ periodic_events ok s, lastUpdate := now'\<rparr>
      else s)"
  by (simp add: sensors_periodic_def periodic_pump_eq periodic_pipe_eq periodic_critical_eq
    periodic_warn_eq periodic_events_def print_def pump_due_def disj_ac)

subsection \<open>Rules for the button dispatcher and the loop\<close>

lemma Action_Btn_Pressed_seq:
  assumes "A s"
    and "\<And>x. A x \<Longrightarrow>
           B (if pumpBtnPressed x
              then (ActionPumpOverride (fst (clk RPump)) (snd (clk RPump)) x)
                     \<lparr>pumpBtnPressed := False\<rparr>
              else x)"
    and "\<And>x. B x \<Longrightarrow>
           C (if warnBtnPressed x
              then (ActionHFSWarn (fst (clk RWarn)) (snd (clk RWarn)) x)
                     \<lparr>warnBtnPressed := False\<rparr>
              else x)"
    and "\<And>x. C x \<Longrightarrow>
           D (if criticalBtnPressed x
              then (ActionHFSCritical (fst (clk RCritical)) (snd (clk RCritical)) x)
                     \<lparr>criticalBtnPressed := False\<rparr>
              else x)"
    and "\<And>x. D x \<Longrightarrow>
           E (if pipeBtnPressed x
              then (ActionVFSPipe (fst (clk RPipe)) (snd (clk RPipe)) x)
                     \<lparr>pipeBtnPressed := False\<rparr>
              else x)"
  shows "E (Action_Btn_Pressed clk s)"
  unfolding Action_Btn_Pressed_def Let_def
  by (intro assms(5) assms(4) assms(3) assms(2) assms(1))

lemma Action_Btn_Pressed_rule:
  assumes "I s"
    and "\<And>x. I x \<Longrightarrow> pumpBtnPressed x \<Longrightarrow>
           I ((ActionPumpOverride (fst (clk RPump)) (snd (clk RPump)) x)
                \<lparr>pumpBtnPressed := False\<rparr>)"
    and "\<And>x. I x \<Longrightarrow> warnBtnPressed x \<Longrightarrow>
           I ((ActionHFSWarn (fst (clk RWarn)) (snd (clk RWarn)) x)\<lparr>warnBtnPressed := False\<rparr>)"
    and "\<And>x. I x \<Longrightarrow> criticalBtnPressed x \<Longrightarrow>
           I ((ActionHFSCritical (fst (clk RCritical)) (snd (clk RCritical)) x)
                \<lparr>criticalBtnPressed := False\<rparr>)"
    and "\<And>x. I x \<Longrightarrow> pipeBtnPressed x \<Longrightarrow>
           I ((ActionVFSPipe (fst (clk RPipe)) (snd (clk RPipe)) x)\<lparr>pipeBtnPressed := False\<rparr>)"
  shows "I (Action_Btn_Pressed clk s)"
  by (rule Action_Btn_Pressed_seq [where A = I and B = I and C = I and D = I and E = I])
    (simp_all add: assms)

lemma serve_all_rule:
  assumes "I s" and "\<And>i x. I x \<Longrightarrow> i \<in> set is \<Longrightarrow> I (serve i x)"
  shows "I (serve_all is s)"
  using assms by (induction "is" arbitrary: s) auto

lemma loop_seq:
  assumes "A s"
    and "\<And>x. A x \<Longrightarrow>
           B (Action_Btn_Pressed (millis e) (serve_all (early e) (readbackMQTT (inbound e) x)))"
    and "\<And>x. B x \<Longrightarrow> C (Update_Feeds (millis e) (sent e) (serve_all (late e) x))"
    and "\<And>x. C x \<Longrightarrow> C (x\<lparr>lastUpdateCount := countUpdate x\<rparr>)"
  shows "C (loop e s)"
  unfolding loop_def Let_def using assms by simp

lemma loop_rule:
  assumes "I s"
    and "\<And>x. I x \<Longrightarrow> I (readbackMQTT (inbound e) x)"
    and "\<And>x. I x \<Longrightarrow> I (serve_all (early e) x)"
    and "\<And>x. I x \<Longrightarrow> I (Action_Btn_Pressed (millis e) x)"
    and "\<And>x. I x \<Longrightarrow> I (serve_all (late e) x)"
    and "\<And>x. I x \<Longrightarrow> I (Update_Feeds (millis e) (sent e) x)"
    and "\<And>x. I x \<Longrightarrow> I (x\<lparr>lastUpdateCount := countUpdate x\<rparr>)"
  shows "I (loop e s)"
  unfolding loop_def Let_def using assms by simp

subsection \<open>What leaves the switch variables alone\<close>

lemma switches_serve [simp]: "switches (serve i s) = switches s"
  by (cases i)
    (simp_all add: switches_def countPulse1_def countPulse2_def PumpBtn_Pressed_def
      WarnBtn_Pressed_def CriticalBtn_Pressed_def PipeBtn_Pressed_def)

lemma switches_serve_all [simp]: "switches (serve_all is s) = switches s"
  by (induction "is" arbitrary: s) simp_all

lemma switches_UpdateFlowMeters [simp]: "switches (UpdateFlowMeters now now' ok s) = switches s"
  by (simp add: UpdateFlowMeters_eq switches_def)

lemma switches_sensors_immediate [simp]: "switches (sensors_immediate ok s) = switches s"
  by (simp add: sensors_immediate_eq switches_def)

lemma switches_sensors_periodic [simp]: "switches (sensors_periodic now now' ok s) = switches s"
  by (simp add: sensors_periodic_eq switches_def)

lemma switches_println [simp]: "switches (println m s) = switches s"
  by (simp add: println_def switches_def)

lemma switches_upd [simp]:
  "switches (s\<lparr>firstUpdate := b\<rparr>) = switches s"
  "switches (s\<lparr>lastUpdateCount := c\<rparr>) = switches s"
  "switches (s\<lparr>pumpBtnPressed := b\<rparr>) = switches s"
  "switches (s\<lparr>warnBtnPressed := b\<rparr>) = switches s"
  "switches (s\<lparr>criticalBtnPressed := b\<rparr>) = switches s"
  "switches (s\<lparr>pipeBtnPressed := b\<rparr>) = switches s"
  by (simp_all add: switches_def)

lemma switches_Update_Feeds [simp]: "switches (Update_Feeds clk ok s) = switches s"
  by (simp add: Update_Feeds_def UpdateSensors_def Let_def)

lemma switches_readback_other [simp]:
  "switches (readbackMQTT None s) = switches s"
  "switches (readbackMQTT (Some OtherSub) s) = switches s"
  by (simp_all add: readbackMQTT_def)

lemma hz_switches: "switches s' = switches s \<Longrightarrow> hz s' = hz s"
  by (simp add: switches_def hz_def)

lemma hz_readback [simp]: "hz (readbackMQTT sub s) = hz s"
proof (cases sub rule: subscription_cases)
  case 1
  then show ?thesis by (simp add: readbackMQTT_def)
next
  case 2
  show ?thesis unfolding 2 by (rule hz_switches) simp
next
  case 3
  show ?thesis unfolding 3 by (simp add: readback_pump hz_def)
qed

lemma hz_simps [simp]:
  "hz (serve_all is s) = hz s"
  "hz (Update_Feeds clk ok s) = hz s"
  "hz (s\<lparr>lastUpdateCount := c\<rparr>) = hz s"
  "hz (s\<lparr>pumpBtnPressed := b\<rparr>) = hz s"
  "hz (s\<lparr>warnBtnPressed := b\<rparr>) = hz s"
  "hz (s\<lparr>criticalBtnPressed := b\<rparr>) = hz s"
  "hz (s\<lparr>pipeBtnPressed := b\<rparr>) = hz s"
  by (rule hz_switches, simp)+

lemma hz_ActionPumpOverride [simp]: "hz (ActionPumpOverride now now' s) = hz s"
  by (simp add: ActionPumpOverride_eq hz_def)

lemma hz_ActionHFSWarn [simp]: "hz (ActionHFSWarn now now' s) = hz s"
  by (simp add: ActionHFSWarn_eq hz_def)

lemma pm_switches: "switches s' = switches s \<Longrightarrow> pm s' = pm s"
  by (simp add: switches_def pm_def)

lemma pm_simps [simp]:
  "pm (serve_all is s) = pm s"
  "pm (Update_Feeds clk ok s) = pm s"
  "pm (s\<lparr>lastUpdateCount := c\<rparr>) = pm s"
  "pm (s\<lparr>pumpBtnPressed := b\<rparr>) = pm s"
  "pm (s\<lparr>warnBtnPressed := b\<rparr>) = pm s"
  "pm (s\<lparr>criticalBtnPressed := b\<rparr>) = pm s"
  "pm (s\<lparr>pipeBtnPressed := b\<rparr>) = pm s"
  by (rule pm_switches, simp)+

subsection \<open>Remote commands\<close>

lemma saturate_0 [simp]: "saturate 0 = 0"
  by (simp add: saturate_def)

lemma not_space_sign [simp]: "\<not> isspace CHR ''-''" "\<not> isspace CHR ''+''"
  by (simp_all add: isspace_def)

lemma not_digit_sign [simp]: "\<not> isdigit CHR ''-''" "\<not> isdigit CHR ''+''"
  by (simp_all add: isdigit_def)

lemma digits_value_no_digit:
  "(case cs of [] \<Rightarrow> False | d # _ \<Rightarrow> isdigit d) = False \<Longrightarrow> digits_value cs 0 = 0"
  by (cases cs) auto

lemma atoi_no_number: "\<not> leading_number str \<Longrightarrow> atoi str = 0"
proof (cases "dropWhile isspace str")
  case Nil
  show ?thesis unfolding atoi_def Nil by simp
next
  case (Cons c cs)
  assume np: "\<not> leading_number str"
  show ?thesis
  proof (cases "c = CHR ''-'' \<or> c = CHR ''+''")
    case True
    from np have "(case cs of [] \<Rightarrow> False | d # _ \<Rightarrow> isdigit d) = False"
      unfolding leading_number_def Cons using True by simp
    then have "digits_value cs 0 = 0" by (rule digits_value_no_digit)
    then show ?thesis unfolding atoi_def Cons using True by auto
  next
    case False
    from np have "\<not> isdigit c" unfolding leading_number_def Cons using False by simp
    then show ?thesis unfolding atoi_def Cons using False by simp
  qed
qed

lemma parseable_leading_number: "parseable str \<Longrightarrow> leading_number str"
proof (cases "dropWhile isspace str")
  case Nil
  assume "parseable str"
  then show ?thesis unfolding parseable_def Nil by simp
next
  case (Cons c cs)
  assume "parseable str"
  then show ?thesis
    unfolding parseable_def leading_number_def Cons
    by (cases cs) (auto split: if_splits)
qed

text \<open>Reading stops at the first character that is no digit.\<close>

lemma digits_value_stop:
  "list_all isdigit ds \<Longrightarrow> \<not> isdigit c \<Longrightarrow>
     digits_value (ds @ c # rest) acc = digits_value ds acc"
  by (induction ds arbitrary: acc) simp_all

lemma dropWhile_isspace_append:
  assumes "dropWhile isspace p = c0 # cs0"
  shows "dropWhile isspace (p @ r) = c0 # cs0 @ r"
proof -
  from assms have "dropWhile isspace p \<noteq> []" by simp
  then obtain x where "x \<in> set p" and "\<not> isspace x"
    by (auto simp: dropWhile_eq_Nil_conv)
  then have "dropWhile isspace (p @ r) = dropWhile isspace p @ r"
    by (rule dropWhile_append1)
  then show ?thesis unfolding assms by simp
qed

lemma atoi_trailing:
  assumes "parseable p" and "\<not> isdigit c"
  shows "atoi (p @ c # rest) = atoi p" and "\<not> parseable (p @ c # rest)"
proof -
  from assms(1) obtain c0 cs0 where d: "dropWhile isspace p = c0 # cs0"
    unfolding parseable_def by (cases "dropWhile isspace p") simp_all
  have e: "dropWhile isspace (p @ c # rest) = c0 # cs0 @ c # rest"
    using d by (rule dropWhile_isspace_append)
  show "atoi (p @ c # rest) = atoi p"
  proof (cases "c0 = CHR ''-'' \<or> c0 = CHR ''+''")
    case True
    from assms(1) have "list_all isdigit cs0"
      unfolding parseable_def d using True by simp
    then have "digits_value (cs0 @ c # rest) 0 = digits_value cs0 0"
      using assms(2) by (rule digits_value_stop)
    then show ?thesis unfolding atoi_def d e using True by auto
  next
    case False
    from assms(1) have "list_all isdigit (c0 # cs0)"
      unfolding parseable_def d using False by simp
    then have "digits_value ((c0 # cs0) @ c # rest) 0 = digits_value (c0 # cs0) 0"
      using assms(2) by (rule digits_value_stop)
    then show ?thesis unfolding atoi_def d e using False by simp
  qed
  show "\<not> parseable (p @ c # rest)"
    unfolding parseable_def e using assms(2) by simp
qed

text \<open>
  A payload with a number at its head that is not parseable is a parseable payload
  followed by a character that is no digit, and by anything after it.
\<close>

lemma number_with_trailing:
  assumes "leading_number str" and "\<not> parseable str"
  shows "\<exists>p c rest. str = p @ c # rest \<and> parseable p \<and> \<not> isdigit c"
proof -
  define w where "w = takeWhile isspace str"
  from assms(1) obtain c0 cs0 where d: "dropWhile isspace str = c0 # cs0"
    unfolding leading_number_def by (cases "dropWhile isspace str") simp_all
  have str: "str = w @ c0 # cs0"
    unfolding w_def d [symmetric] by simp
  have c0: "\<not> isspace c0"
    using hd_dropWhile [of isspace str] d by simp
  have w: "\<And>x. x \<in> set w \<Longrightarrow> isspace x"
    unfolding w_def by (rule set_takeWhileD [THEN conjunct2])
  have head: "dropWhile isspace (w @ c0 # ds) = c0 # ds" for ds
    using w c0 by (simp add: dropWhile_append2)
  define ds where "ds = takeWhile isdigit cs0"
  define r where "r = dropWhile isdigit cs0"
  have cs0: "cs0 = ds @ r" unfolding ds_def r_def by simp
  have dig: "list_all isdigit ds"
    unfolding ds_def list_all_iff using set_takeWhileD [of _ isdigit cs0] by blast
  have junk: "\<not> list_all isdigit cs0"
    using assms unfolding leading_number_def parseable_def d
    by (cases cs0) (auto split: if_splits)
  then have "r \<noteq> []"
    unfolding r_def list_all_iff by (simp add: dropWhile_eq_Nil_conv)
  then obtain c rest where r: "r = c # rest" by (cases r) simp_all
  have c: "\<not> isdigit c"
    using hd_dropWhile [of isdigit cs0] \<open>r \<noteq> []\<close> unfolding r_def [symmetric] r by simp
  have p: "parseable (w @ c0 # ds)"
  proof (cases "c0 = CHR ''-'' \<or> c0 = CHR ''+''")
    case True
    from assms(1) have "ds \<noteq> []"
      unfolding leading_number_def d ds_def using True by (cases cs0) auto
    then show ?thesis unfolding parseable_def head using True dig by simp
  next
    case False
    from assms(1) have "isdigit c0"
      unfolding leading_number_def d using False by simp
    then show ?thesis unfolding parseable_def head using False dig by simp
  qed
  have "str = (w @ c0 # ds) @ c # rest"
    unfolding str cs0 r by simp
  with p c show ?thesis by blast
qed

text \<open>
  C3, as stated, fails: the payload \<open>ON\<close> is no integer, and in the initial state
  (pump on) the handler switches the pump off and marks it for publication.
\<close>

theorem malformed_command_changes_state:
  "\<not> parseable ''ON'' \<and>
   statePumpOverride init_state = 1 \<and>
   statePumpOverride (readbackMQTT (Some (PumpOverrideSub ''ON'')) init_state) = 0 \<and>
   trgPump (readbackMQTT (Some (PumpOverrideSub ''ON'')) init_state)"
  by code_simp

text \<open>
  C3, amended: a pump-override payload that is not parseable as an integer is not
  dropped. It is logged like any other payload and handled as the integer that \<open>atoi\<close>
  reads from it: that integer is compared with \<open>statePumpOverride\<close> and, when it
  differs, written like any command (\<open>statePumpOverride\<close> takes it, \<open>lastPumpState\<close> its
  negation, the pump LED its level, \<open>trgPump\<close> and \<open>triggered\<close> are set); nothing but
  the log changes only when it equals \<open>statePumpOverride\<close>. The integer read is 0 when
  the payload has no number at its head, and otherwise the value of the number at its
  head, whatever follows it: a payload that is not parseable either has no number at
  its head, or is a parseable payload followed by a character that is no digit and by
  anything after that, and is then read as that parseable payload.
\<close>

theorem malformed_command_is_carried_out:
  "(\<not> parseable payload \<longrightarrow>
      trace (readbackMQTT (Some (PumpOverrideSub payload)) s) = trace s @ command_log payload \<and>
      (readbackMQTT (Some (PumpOverrideSub payload)) s)\<lparr>trace := trace s\<rparr> =
        (if statePumpOverride s = atoi payload then s
         else s\<lparr>statePumpOverride := atoi payload, lastPumpState := c_not (atoi payload),
                ledPumpLevel := (atoi payload \<noteq> 0), trgPump := True, triggered := True\<rparr>)) \<and>
   (\<not> leading_number payload \<longrightarrow> \<not> parseable payload \<and> atoi payload = 0) \<and>
   (parseable p \<and> \<not> isdigit c \<longrightarrow>
      \<not> parseable (p @ c # rest) \<and> atoi (p @ c # rest) = atoi p) \<and>
   (\<not> parseable payload \<and> leading_number payload \<longrightarrow>
      (\<exists>p c rest. payload = p @ c # rest \<and> parseable p \<and> \<not> isdigit c))"
proof -
  have 1: "trace (readbackMQTT (Some (PumpOverrideSub payload)) s) = trace s @ command_log payload \<and>
      (readbackMQTT (Some (PumpOverrideSub payload)) s)\<lparr>trace := trace s\<rparr> =
        (if statePumpOverride s = atoi payload then s
         else s\<lparr>statePumpOverride := atoi payload, lastPumpState := c_not (atoi payload),
                ledPumpLevel := (atoi payload \<noteq> 0), trgPump := True, triggered := True\<rparr>)"
    by (simp add: readback_pump)
  have 2: "\<not> leading_number payload \<longrightarrow> \<not> parseable payload \<and> atoi payload = 0"
    using parseable_leading_number [of payload] atoi_no_number [of payload] by blast
  have 3: "parseable p \<and> \<not> isdigit c \<longrightarrow>
      \<not> parseable (p @ c # rest) \<and> atoi (p @ c # rest) = atoi p"
    using atoi_trailing [of p c rest] by blast
  have 4: "\<not> parseable payload \<and> leading_number payload \<longrightarrow>
      (\<exists>p c rest. payload = p @ c # rest \<and> parseable p \<and> \<not> isdigit c)"
    using number_with_trailing [of payload] by blast
  from 1 2 3 4 show ?thesis by blast
qed

text \<open>
  A witness: \<open>ON\<close> has no number at its head and is carried out as "pump off" in the
  initial state; \<open>1abc\<close> is \<open>1\<close> followed by \<open>a\<close>, is read as 1 and switches the pump on
  again.
\<close>

theorem malformed_command_is_carried_out_witness:
  "\<not> parseable ''ON'' \<and> \<not> leading_number ''ON'' \<and> atoi ''ON'' = 0 \<and>
   (readbackMQTT (Some (PumpOverrideSub ''ON'')) init_state)\<lparr>trace := []\<rparr> =
     init_state\<lparr>statePumpOverride := 0, lastPumpState := 1, ledPumpLevel := False,
                trgPump := True, triggered := True\<rparr> \<and>
   parseable ''1'' \<and> \<not> isdigit CHR ''a'' \<and> \<not> parseable ''1abc'' \<and> leading_number ''1abc'' \<and>
   atoi ''1abc'' = 1 \<and>
   statePumpOverride (readbackMQTT (Some (PumpOverrideSub ''1abc''))
     (readbackMQTT (Some (PumpOverrideSub ''ON'')) init_state)) = 1"
proof -
  have h: "\<not> parseable ''ON'' \<and> \<not> leading_number ''ON'' \<and> parseable ''1'' \<and>
      \<not> isdigit CHR ''a'' \<and> leading_number ''1abc'' \<and> atoi ''1'' = 1 \<and>
      statePumpOverride (readbackMQTT (Some (PumpOverrideSub ''ON'')) init_state) = 0"
    by code_simp
  have a: "''1abc'' = ''1'' @ CHR ''a'' # ''bc''" by simp
  note t1 = malformed_command_is_carried_out [of "''ON''" init_state "''1''" "CHR ''a''" "''bc''"]
  note t2 = malformed_command_is_carried_out [of "''1abc''"
      "readbackMQTT (Some (PumpOverrideSub ''ON'')) init_state" "''1''" "CHR ''a''" "''bc''"]
  from h t1 have on: "atoi ''ON'' = 0" by blast
  from h t1 have junk: "\<not> parseable ''1abc''" and v: "atoi ''1abc'' = 1"
    unfolding a by (blast, metis)
  from h on t1 have s1: "(readbackMQTT (Some (PumpOverrideSub ''ON'')) init_state)\<lparr>trace := []\<rparr> =
     init_state\<lparr>statePumpOverride := 0, lastPumpState := 1, ledPumpLevel := False,
                trgPump := True, triggered := True\<rparr>"
    by (simp add: init_state_def c_not_def)
  from junk t2 have "(readbackMQTT (Some (PumpOverrideSub ''1abc''))
        (readbackMQTT (Some (PumpOverrideSub ''ON'')) init_state))
        \<lparr>trace := trace (readbackMQTT (Some (PumpOverrideSub ''ON'')) init_state)\<rparr>
      = (if statePumpOverride (readbackMQTT (Some (PumpOverrideSub ''ON'')) init_state)
            = atoi ''1abc''
         then readbackMQTT (Some (PumpOverrideSub ''ON'')) init_state
         else (readbackMQTT (Some (PumpOverrideSub ''ON'')) init_state)
           \<lparr>statePumpOverride := atoi ''1abc'', lastPumpState := c_not (atoi ''1abc''),
            ledPumpLevel := (atoi ''1abc'' \<noteq> 0), trgPump := True, triggered := True\<rparr>)"
    by blast
  then have "statePumpOverride ((readbackMQTT (Some (PumpOverrideSub ''1abc''))
        (readbackMQTT (Some (PumpOverrideSub ''ON'')) init_state))
        \<lparr>trace := trace (readbackMQTT (Some (PumpOverrideSub ''ON'')) init_state)\<rparr>) = 1"
    using h v by simp
  then have s2: "statePumpOverride (readbackMQTT (Some (PumpOverrideSub ''1abc''))
     (readbackMQTT (Some (PumpOverrideSub ''ON'')) init_state)) = 1"
    by simp
  from h on junk v s1 s2 show ?thesis by blast
qed

text \<open>
  C2, as stated, fails. Fifty milliseconds after the pump timer was set a press of the
  pump switch is rejected by the debounce test, and so is the command \<open>0\<close> on the route
  the specification describes; \<open>readbackMQTT\<close> switches the pump off all the same.
\<close>

theorem remote_command_bypasses_debounce:
  "statePumpOverride (ActionPumpOverride 50 50 init_state) = 1 \<and>
   statePumpOverride (spec_onCommand ''0'' 50 50 init_state) = 1 \<and>
   statePumpOverride (readbackMQTT (Some (PumpOverrideSub ''0'')) init_state) = 0"
  by code_simp

text \<open>
  C2, amended: an inbound pump-override command is decoded by \<open>atoi\<close> and, when the
  integer differs from \<open>statePumpOverride\<close>, written straight into the pump channel:
  \<open>statePumpOverride\<close> takes the integer, \<open>lastPumpState\<close> its negation, the LED its
  level, and \<open>trgPump\<close> and \<open>triggered\<close> are set. The handler has no clock reading and
  leaves \<open>lastPumpDebounce\<close> as it was: the remote route shares the channel's variables
  and flags with the switch handler, not its debounce test.
\<close>

theorem remote_command_written_directly:
  "statePumpOverride (readbackMQTT (Some (PumpOverrideSub payload)) s) = atoi payload \<and>
   lastPumpDebounce (readbackMQTT (Some (PumpOverrideSub payload)) s) = lastPumpDebounce s \<and>
   (readbackMQTT (Some (PumpOverrideSub payload)) s)\<lparr>trace := trace s\<rparr> =
     (if statePumpOverride s = atoi payload then s
      else s\<lparr>statePumpOverride := atoi payload, lastPumpState := c_not (atoi payload),
             ledPumpLevel := (atoi payload \<noteq> 0), trgPump := True, triggered := True\<rparr>)"
  by (simp add: readback_pump)

theorem remote_command_written_directly_witness:
  "statePumpOverride (readbackMQTT (Some (PumpOverrideSub ''0'')) init_state) = 0 \<and>
   lastPumpDebounce (readbackMQTT (Some (PumpOverrideSub ''0'')) init_state) = 0 \<and>
   (readbackMQTT (Some (PumpOverrideSub ''0'')) init_state)\<lparr>trace := []\<rparr> =
     init_state\<lparr>statePumpOverride := 0, lastPumpState := 1, ledPumpLevel := False,
                trgPump := True, triggered := True\<rparr>"
proof -
  have a: "atoi ''0'' = 0" by code_simp
  show ?thesis
    using remote_command_written_directly [of "''0''" init_state]
    by (simp add: a c_not_def init_state_def)
qed

subsection \<open>The pairs of state and last state\<close>

lemma negated_boolean_toggle: "negated_boolean lst st \<Longrightarrow> negated_boolean st (c_not st)"
  by (auto simp: negated_boolean_def c_not_def)

lemma negated_boolean_01 [simp]: "negated_boolean 0 1" "negated_boolean 1 0"
  by (simp_all add: negated_boolean_def c_not_def)

lemma complementary_toggle [simp]:
  "complementary st (c_not st)" "complementary (c_not st) st" "complementary 1 0"
  by (simp_all add: complementary_def c_not_def)

lemma negated_boolean_complementary: "negated_boolean lst st \<Longrightarrow> complementary lst st"
  by (auto simp: negated_boolean_def complementary_def c_not_def)

lemma switch_pairs_switches: "switch_pairs s \<Longrightarrow> switches s' = switches s \<Longrightarrow> switch_pairs s'"
  by (simp add: switches_def switch_pairs_def)

lemma switch_pairs_ActionPumpOverride:
  "switch_pairs s \<Longrightarrow> switch_pairs ((ActionPumpOverride now now' s)\<lparr>pumpBtnPressed := False\<rparr>)"
  by (simp add: ActionPumpOverride_eq switch_pairs_def)

lemma switch_pairs_ActionHFSWarn:
  "switch_pairs s \<Longrightarrow> switch_pairs ((ActionHFSWarn now now' s)\<lparr>warnBtnPressed := False\<rparr>)"
  by (auto simp add: ActionHFSWarn_eq switch_pairs_def intro: negated_boolean_toggle)

lemma switch_pairs_ActionHFSCritical:
  "switch_pairs s \<Longrightarrow>
     switch_pairs ((ActionHFSCritical now now' s)\<lparr>criticalBtnPressed := False\<rparr>)"
  by (auto simp add: ActionHFSCritical_eq switch_pairs_def intro: negated_boolean_toggle)

lemma switch_pairs_ActionVFSPipe:
  "switch_pairs s \<Longrightarrow> switch_pairs ((ActionVFSPipe now now' s)\<lparr>pipeBtnPressed := False\<rparr>)"
  by (auto simp add: ActionVFSPipe_eq switch_pairs_def intro: negated_boolean_toggle)

lemma switch_pairs_readback: "switch_pairs s \<Longrightarrow> switch_pairs (readbackMQTT sub s)"
proof -
  assume a: "switch_pairs s"
  show ?thesis
  proof (cases sub rule: subscription_cases)
    case 1
    then show ?thesis using a by (simp add: readbackMQTT_def)
  next
    case 2
    show ?thesis unfolding 2 using a by (rule switch_pairs_switches) simp
  next
    case 3
    show ?thesis unfolding 3 using a by (auto simp add: readback_pump switch_pairs_def)
  qed
qed

lemma switch_pairs_Action_Btn_Pressed:
  "switch_pairs s \<Longrightarrow> switch_pairs (Action_Btn_Pressed clk s)"
proof (rule Action_Btn_Pressed_rule [where I = switch_pairs])
  show "\<And>x. switch_pairs x \<Longrightarrow> pumpBtnPressed x \<Longrightarrow>
           switch_pairs ((ActionPumpOverride (fst (clk RPump)) (snd (clk RPump)) x)
              \<lparr>pumpBtnPressed := False\<rparr>)"
    by (rule switch_pairs_ActionPumpOverride)
  show "\<And>x. switch_pairs x \<Longrightarrow> warnBtnPressed x \<Longrightarrow>
           switch_pairs ((ActionHFSWarn (fst (clk RWarn)) (snd (clk RWarn)) x)
              \<lparr>warnBtnPressed := False\<rparr>)"
    by (rule switch_pairs_ActionHFSWarn)
  show "\<And>x. switch_pairs x \<Longrightarrow> criticalBtnPressed x \<Longrightarrow>
           switch_pairs ((ActionHFSCritical (fst (clk RCritical)) (snd (clk RCritical)) x)
              \<lparr>criticalBtnPressed := False\<rparr>)"
    by (rule switch_pairs_ActionHFSCritical)
  show "\<And>x. switch_pairs x \<Longrightarrow> pipeBtnPressed x \<Longrightarrow>
           switch_pairs ((ActionVFSPipe (fst (clk RPipe)) (snd (clk RPipe)) x)
              \<lparr>pipeBtnPressed := False\<rparr>)"
    by (rule switch_pairs_ActionVFSPipe)
qed

lemma switch_pairs_loop: "switch_pairs s \<Longrightarrow> switch_pairs (loop e s)"
proof (rule loop_rule [where I = switch_pairs])
  show "\<And>x. switch_pairs x \<Longrightarrow> switch_pairs (readbackMQTT (inbound e) x)"
    by (rule switch_pairs_readback)
  show "\<And>x. switch_pairs x \<Longrightarrow> switch_pairs (serve_all (early e) x)"
    by (erule switch_pairs_switches) simp
  show "\<And>x. switch_pairs x \<Longrightarrow> switch_pairs (Action_Btn_Pressed (millis e) x)"
    by (rule switch_pairs_Action_Btn_Pressed)
  show "\<And>x. switch_pairs x \<Longrightarrow> switch_pairs (serve_all (late e) x)"
    by (erule switch_pairs_switches) simp
  show "\<And>x. switch_pairs x \<Longrightarrow> switch_pairs (Update_Feeds (millis e) (sent e) x)"
    by (erule switch_pairs_switches) simp
  show "\<And>x. switch_pairs x \<Longrightarrow> switch_pairs (x\<lparr>lastUpdateCount := countUpdate x\<rparr>)"
    by (erule switch_pairs_switches) simp
qed

lemma switch_pairs_run: "switch_pairs s \<Longrightarrow> switch_pairs (run es s)"
  by (induction es arbitrary: s) (simp_all add: switch_pairs_loop)

lemma switch_pairs_init: "switch_pairs init_state"
  by (simp add: switch_pairs_def init_state_def complementary_def)

text \<open>The pump pair, when the remote commands carry 0 or 1.\<close>

lemma pump_pair_switches: "pump_pair s \<Longrightarrow> switches s' = switches s \<Longrightarrow> pump_pair s'"
  by (simp add: switches_def pump_pair_def)

lemma pump_pair_Action_Btn_Pressed: "pump_pair s \<Longrightarrow> pump_pair (Action_Btn_Pressed clk s)"
proof (rule Action_Btn_Pressed_rule [where I = pump_pair])
  show "\<And>x. pump_pair x \<Longrightarrow> pumpBtnPressed x \<Longrightarrow>
           pump_pair ((ActionPumpOverride (fst (clk RPump)) (snd (clk RPump)) x)
              \<lparr>pumpBtnPressed := False\<rparr>)"
    by (auto simp add: ActionPumpOverride_eq pump_pair_def intro: negated_boolean_toggle)
  show "\<And>x. pump_pair x \<Longrightarrow> warnBtnPressed x \<Longrightarrow>
           pump_pair ((ActionHFSWarn (fst (clk RWarn)) (snd (clk RWarn)) x)
              \<lparr>warnBtnPressed := False\<rparr>)"
    by (simp add: ActionHFSWarn_eq pump_pair_def)
  show "\<And>x. pump_pair x \<Longrightarrow> criticalBtnPressed x \<Longrightarrow>
           pump_pair ((ActionHFSCritical (fst (clk RCritical)) (snd (clk RCritical)) x)
              \<lparr>criticalBtnPressed := False\<rparr>)"
    by (simp add: ActionHFSCritical_eq pump_pair_def)
  show "\<And>x. pump_pair x \<Longrightarrow> pipeBtnPressed x \<Longrightarrow>
           pump_pair ((ActionVFSPipe (fst (clk RPipe)) (snd (clk RPipe)) x)
              \<lparr>pipeBtnPressed := False\<rparr>)"
    by (simp add: ActionVFSPipe_eq pump_pair_def)
qed

lemma pump_pair_readback:
  assumes "pump_pair s" and "boolean_command e"
  shows "pump_pair (readbackMQTT (inbound e) s)"
proof (cases "inbound e" rule: subscription_cases)
  case 1
  then show ?thesis using assms(1) by (simp add: readbackMQTT_def)
next
  case 2
  show ?thesis unfolding 2 using assms(1) by (rule pump_pair_switches) simp
next
  case (3 payload)
  from assms(2) have "atoi payload = 0 \<or> atoi payload = 1"
    by (simp add: boolean_command_def 3)
  then show ?thesis unfolding 3 using assms(1)
    by (auto simp add: readback_pump pump_pair_def negated_boolean_def c_not_def)
qed

lemma pump_pair_loop: "pump_pair s \<Longrightarrow> boolean_command e \<Longrightarrow> pump_pair (loop e s)"
proof -
  assume a: "pump_pair s" and b: "boolean_command e"
  show ?thesis
  proof (rule loop_rule [where I = pump_pair])
    show "pump_pair s" by (rule a)
    show "\<And>x. pump_pair x \<Longrightarrow> pump_pair (readbackMQTT (inbound e) x)"
      by (rule pump_pair_readback [OF _ b])
    show "\<And>x. pump_pair x \<Longrightarrow> pump_pair (serve_all (early e) x)"
      by (erule pump_pair_switches) simp
    show "\<And>x. pump_pair x \<Longrightarrow> pump_pair (Action_Btn_Pressed (millis e) x)"
      by (rule pump_pair_Action_Btn_Pressed)
    show "\<And>x. pump_pair x \<Longrightarrow> pump_pair (serve_all (late e) x)"
      by (erule pump_pair_switches) simp
    show "\<And>x. pump_pair x \<Longrightarrow> pump_pair (Update_Feeds (millis e) (sent e) x)"
      by (erule pump_pair_switches) simp
    show "\<And>x. pump_pair x \<Longrightarrow> pump_pair (x\<lparr>lastUpdateCount := countUpdate x\<rparr>)"
      by (erule pump_pair_switches) simp
  qed
qed

lemma pump_pair_run: "pump_pair s \<Longrightarrow> list_all boolean_command es \<Longrightarrow> pump_pair (run es s)"
  by (induction es arbitrary: s) (simp_all add: pump_pair_loop)

lemma pump_pair_init: "pump_pair init_state"
  by (simp add: pump_pair_def init_state_def)

text \<open>
  C10, as stated, fails on the pump channel. After the remote payload \<open>5\<close> the pair is
  \<open>lastPumpState = 0\<close>, \<open>statePumpOverride = 5\<close>, which satisfies
  \<open>lastPumpState == !statePumpOverride\<close>; the toggle of \<open>ActionPumpOverride\<close> then leaves
  \<open>lastPumpState = 5\<close>, \<open>statePumpOverride = 0\<close>, which does not. The same two steps as
  passes of the loop give the same state.
\<close>

theorem toggle_after_command_5_breaks_negation:
  "pairs_negated (readbackMQTT (Some (PumpOverrideSub ''5'')) init_state) \<and>
   lastPumpState (ActionPumpOverride 200 200
      (readbackMQTT (Some (PumpOverrideSub ''5'')) init_state)) = 5 \<and>
   statePumpOverride (ActionPumpOverride 200 200
      (readbackMQTT (Some (PumpOverrideSub ''5'')) init_state)) = 0 \<and>
   \<not> pairs_negated (ActionPumpOverride 200 200
      (readbackMQTT (Some (PumpOverrideSub ''5'')) init_state)) \<and>
   \<not> pairs_negated (run [commanding ''5'' 1000, pressing PumpBtn 2000] init_state)"
  by code_simp

text \<open>
  C10, amended: after initialization and after every pass of the loop the two variables
  of each of the four channels are complementary as truth values (exactly one of them is
  zero), so they differ and the next toggle commits the opposite level. The equality
  \<open>lastState == !state\<close> itself holds for the three float-switch channels always, and
  for the pump channel as long as every remote command carried 0 or 1.
\<close>

theorem pairs_after_every_pass:
  "pairs_complementary (run es init_state) \<and>
   float_pairs_negated (run es init_state) \<and>
   (list_all boolean_command es \<longrightarrow> pairs_negated (run es init_state))"
proof -
  have a: "switch_pairs (run es init_state)"
    by (rule switch_pairs_run) (rule switch_pairs_init)
  have b: "pump_pair (run es init_state)" if "list_all boolean_command es"
    using pump_pair_init that by (rule pump_pair_run)
  from a have 1: "pairs_complementary (run es init_state)"
    by (simp add: switch_pairs_def pairs_complementary_def negated_boolean_complementary)
  from a have 2: "float_pairs_negated (run es init_state)"
    by (simp add: switch_pairs_def float_pairs_negated_def negated_boolean_def)
  from 2 b have 3: "list_all boolean_command es \<longrightarrow> pairs_negated (run es init_state)"
    by (simp add: float_pairs_negated_def pairs_negated_def pump_pair_def negated_boolean_def)
  from 1 2 3 show ?thesis by simp
qed

theorem pairs_after_every_pass_witness:
  "list_all boolean_command [commanding ''0'' 1000, pressing PumpBtn 2000,
      pressing CriticalBtn 3000] \<and>
   pairs_complementary (run [commanding ''0'' 1000, pressing PumpBtn 2000,
      pressing CriticalBtn 3000] init_state) \<and>
   float_pairs_negated (run [commanding ''0'' 1000, pressing PumpBtn 2000,
      pressing CriticalBtn 3000] init_state) \<and>
   pairs_negated (run [commanding ''0'' 1000, pressing PumpBtn 2000,
      pressing CriticalBtn 3000] init_state)"
proof -
  have h: "list_all boolean_command [commanding ''0'' 1000, pressing PumpBtn 2000,
      pressing CriticalBtn 3000]"
    by code_simp
  show ?thesis
    using h pairs_after_every_pass [of "[commanding ''0'' 1000, pressing PumpBtn 2000,
      pressing CriticalBtn 3000]"]
    by blast
qed

subsection \<open>The safety interlock\<close>

lemma pins_follow_hz: "pins_follow x \<Longrightarrow> hz x' = hz x \<Longrightarrow> pins_follow x'"
  by (simp add: hz_def pins_follow_def)

lemma pins_follow_Action_Btn_Pressed:
  "pins_follow s \<Longrightarrow> pins_follow (Action_Btn_Pressed clk s)"
proof (rule Action_Btn_Pressed_rule [where I = pins_follow])
  show "\<And>x. pins_follow x \<Longrightarrow> pumpBtnPressed x \<Longrightarrow>
           pins_follow ((ActionPumpOverride (fst (clk RPump)) (snd (clk RPump)) x)
              \<lparr>pumpBtnPressed := False\<rparr>)"
    by (erule pins_follow_hz) simp
  show "\<And>x. pins_follow x \<Longrightarrow> warnBtnPressed x \<Longrightarrow>
           pins_follow ((ActionHFSWarn (fst (clk RWarn)) (snd (clk RWarn)) x)
              \<lparr>warnBtnPressed := False\<rparr>)"
    by (erule pins_follow_hz) simp
  show "\<And>x. pins_follow x \<Longrightarrow> criticalBtnPressed x \<Longrightarrow>
           pins_follow ((ActionHFSCritical (fst (clk RCritical)) (snd (clk RCritical)) x)
              \<lparr>criticalBtnPressed := False\<rparr>)"
    by (auto simp add: ActionHFSCritical_eq pins_follow_def c_not_def)
  show "\<And>x. pins_follow x \<Longrightarrow> pipeBtnPressed x \<Longrightarrow>
           pins_follow ((ActionVFSPipe (fst (clk RPipe)) (snd (clk RPipe)) x)
              \<lparr>pipeBtnPressed := False\<rparr>)"
    by (auto simp add: ActionVFSPipe_eq pins_follow_def c_not_def)
qed

lemma pins_follow_loop: "pins_follow s \<Longrightarrow> pins_follow (loop e s)"
proof (rule loop_rule [where I = pins_follow])
  show "\<And>x. pins_follow x \<Longrightarrow> pins_follow (readbackMQTT (inbound e) x)"
    by (erule pins_follow_hz) simp
  show "\<And>x. pins_follow x \<Longrightarrow> pins_follow (serve_all (early e) x)"
    by (erule pins_follow_hz) simp
  show "\<And>x. pins_follow x \<Longrightarrow> pins_follow (Action_Btn_Pressed (millis e) x)"
    by (rule pins_follow_Action_Btn_Pressed)
  show "\<And>x. pins_follow x \<Longrightarrow> pins_follow (serve_all (late e) x)"
    by (erule pins_follow_hz) simp
  show "\<And>x. pins_follow x \<Longrightarrow> pins_follow (Update_Feeds (millis e) (sent e) x)"
    by (erule pins_follow_hz) simp
  show "\<And>x. pins_follow x \<Longrightarrow> pins_follow (x\<lparr>lastUpdateCount := countUpdate x\<rparr>)"
    by (erule pins_follow_hz) simp
qed

lemma pins_follow_run: "pins_follow s \<Longrightarrow> pins_follow (run es s)"
  by (induction es arbitrary: s) (simp_all add: pins_follow_loop)

lemma pins_follow_init: "pins_follow init_state"
  by (simp add: pins_follow_def init_state_def)

text \<open>One pass of the loop, in three stretches.\<close>

lemma before_hazards_hz:
  "before_hazards c0 p0 x \<Longrightarrow> hz x' = hz x \<Longrightarrow> before_hazards c0 p0 x'"
  by (simp add: before_hazards_def hz_def pins_follow_def)

lemma after_pipe_frame:
  "after_pipe c0 p0 x \<Longrightarrow> hz x' = hz x \<Longrightarrow> pm x' = pm x \<Longrightarrow> after_pipe c0 p0 x'"
  by (simp add: after_pipe_def hz_def pm_def pump_off_def)

lemma critical_step:
  "before_hazards c0 p0 x \<Longrightarrow>
     after_critical c0 p0
       (if criticalBtnPressed x
        then (ActionHFSCritical now now' x)\<lparr>criticalBtnPressed := False\<rparr> else x)"
  by (auto simp add: before_hazards_def after_critical_def ActionHFSCritical_eq pins_follow_def
      pump_off_def c_not_def)

lemma pipe_step:
  "after_critical c0 p0 x \<Longrightarrow>
     after_pipe c0 p0
       (if pipeBtnPressed x then (ActionVFSPipe now now' x)\<lparr>pipeBtnPressed := False\<rparr> else x)"
  by (auto simp add: after_critical_def after_pipe_def ActionVFSPipe_eq pins_follow_def
      pump_off_def c_not_def)

lemma hazard_edge_forces_pump_off:
  assumes "pins_follow s"
  shows "after_pipe (stateHFSCritical s) (stateVFSPipe s) (loop e s)"
proof (rule loop_seq [where A = "before_hazards (stateHFSCritical s) (stateVFSPipe s)"
      and B = "after_pipe (stateHFSCritical s) (stateVFSPipe s)"])
  show "before_hazards (stateHFSCritical s) (stateVFSPipe s) s"
    using assms by (simp add: before_hazards_def)
next
  fix x assume a: "before_hazards (stateHFSCritical s) (stateVFSPipe s) x"
  have b: "before_hazards (stateHFSCritical s) (stateVFSPipe s)
             (serve_all (early e) (readbackMQTT (inbound e) x))"
    using a by (rule before_hazards_hz) simp
  show "after_pipe (stateHFSCritical s) (stateVFSPipe s)
          (Action_Btn_Pressed (millis e) (serve_all (early e) (readbackMQTT (inbound e) x)))"
  proof (rule Action_Btn_Pressed_seq [where
        A = "before_hazards (stateHFSCritical s) (stateVFSPipe s)" and
        B = "before_hazards (stateHFSCritical s) (stateVFSPipe s)" and
        C = "before_hazards (stateHFSCritical s) (stateVFSPipe s)" and
        D = "after_critical (stateHFSCritical s) (stateVFSPipe s)"])
    show "before_hazards (stateHFSCritical s) (stateVFSPipe s)
            (serve_all (early e) (readbackMQTT (inbound e) x))" by (rule b)
  next
    fix y assume "before_hazards (stateHFSCritical s) (stateVFSPipe s) y"
    then show "before_hazards (stateHFSCritical s) (stateVFSPipe s)
        (if pumpBtnPressed y
         then (ActionPumpOverride (fst (millis e RPump)) (snd (millis e RPump)) y)
                \<lparr>pumpBtnPressed := False\<rparr>
         else y)"
      by (rule before_hazards_hz) simp
  next
    fix y assume "before_hazards (stateHFSCritical s) (stateVFSPipe s) y"
    then show "before_hazards (stateHFSCritical s) (stateVFSPipe s)
        (if warnBtnPressed y
         then (ActionHFSWarn (fst (millis e RWarn)) (snd (millis e RWarn)) y)
                \<lparr>warnBtnPressed := False\<rparr>
         else y)"
      by (rule before_hazards_hz) simp
  qed (rule critical_step, assumption, rule pipe_step, assumption)
next
  fix x assume "after_pipe (stateHFSCritical s) (stateVFSPipe s) x"
  then show "after_pipe (stateHFSCritical s) (stateVFSPipe s)
      (Update_Feeds (millis e) (sent e) (serve_all (late e) x))"
    by (rule after_pipe_frame) simp_all
next
  fix x assume "after_pipe (stateHFSCritical s) (stateVFSPipe s) x"
  then show "after_pipe (stateHFSCritical s) (stateVFSPipe s)
      (x\<lparr>lastUpdateCount := countUpdate x\<rparr>)"
    by (rule after_pipe_frame) simp_all
qed

text \<open>Without a pump command the pump stays off.\<close>

lemma idle_off_serve: "idle_off s \<Longrightarrow> i \<noteq> PumpBtn \<Longrightarrow> idle_off (serve i s)"
  by (cases i)
    (simp_all add: idle_off_def countPulse1_def countPulse2_def PumpBtn_Pressed_def
      WarnBtn_Pressed_def CriticalBtn_Pressed_def PipeBtn_Pressed_def)

lemma idle_off_serve_all: "idle_off s \<Longrightarrow> PumpBtn \<notin> set is \<Longrightarrow> idle_off (serve_all is s)"
  by (induction "is" arbitrary: s) (auto simp add: idle_off_serve)

lemma idle_off_Action_Btn_Pressed: "idle_off s \<Longrightarrow> idle_off (Action_Btn_Pressed clk s)"
proof (rule Action_Btn_Pressed_rule [where I = idle_off])
  show "\<And>x. idle_off x \<Longrightarrow> pumpBtnPressed x \<Longrightarrow>
           idle_off ((ActionPumpOverride (fst (clk RPump)) (snd (clk RPump)) x)
              \<lparr>pumpBtnPressed := False\<rparr>)"
    by (simp add: idle_off_def)
  show "\<And>x. idle_off x \<Longrightarrow> warnBtnPressed x \<Longrightarrow>
           idle_off ((ActionHFSWarn (fst (clk RWarn)) (snd (clk RWarn)) x)
              \<lparr>warnBtnPressed := False\<rparr>)"
    by (simp add: ActionHFSWarn_eq idle_off_def)
  show "\<And>x. idle_off x \<Longrightarrow> criticalBtnPressed x \<Longrightarrow>
           idle_off ((ActionHFSCritical (fst (clk RCritical)) (snd (clk RCritical)) x)
              \<lparr>criticalBtnPressed := False\<rparr>)"
    by (simp add: ActionHFSCritical_eq idle_off_def)
  show "\<And>x. idle_off x \<Longrightarrow> pipeBtnPressed x \<Longrightarrow>
           idle_off ((ActionVFSPipe (fst (clk RPipe)) (snd (clk RPipe)) x)
              \<lparr>pipeBtnPressed := False\<rparr>)"
    by (simp add: ActionVFSPipe_eq idle_off_def)
qed

lemma idle_off_Update_Feeds: "idle_off s \<Longrightarrow> idle_off (Update_Feeds clk ok s)"
  by (simp add: idle_off_def Update_Feeds_def UpdateSensors_def Let_def sensors_periodic_eq
      sensors_immediate_eq UpdateFlowMeters_eq println_def)

lemma idle_off_readback:
  "idle_off s \<Longrightarrow> (case sub of Some (PumpOverrideSub payload) \<Rightarrow> False | _ \<Rightarrow> True) \<Longrightarrow>
     idle_off (readbackMQTT sub s)"
  by (auto simp add: idle_off_def readbackMQTT_def println_def
      split: option.splits subscription.splits)

lemma idle_off_loop: "idle_off s \<Longrightarrow> \<not> pump_command e \<Longrightarrow> idle_off (loop e s)"
proof -
  assume a: "idle_off s" and n: "\<not> pump_command e"
  show ?thesis
  proof (rule loop_rule [where I = idle_off])
    show "idle_off s" by (rule a)
    show "\<And>x. idle_off x \<Longrightarrow> idle_off (readbackMQTT (inbound e) x)"
      using n by (intro idle_off_readback)
        (auto simp: pump_command_def split: option.splits subscription.splits)
    show "\<And>x. idle_off x \<Longrightarrow> idle_off (serve_all (early e) x)"
      using n by (intro idle_off_serve_all) (auto simp: pump_command_def)
    show "\<And>x. idle_off x \<Longrightarrow> idle_off (Action_Btn_Pressed (millis e) x)"
      by (rule idle_off_Action_Btn_Pressed)
    show "\<And>x. idle_off x \<Longrightarrow> idle_off (serve_all (late e) x)"
      using n by (intro idle_off_serve_all) (auto simp: pump_command_def)
    show "\<And>x. idle_off x \<Longrightarrow> idle_off (Update_Feeds (millis e) (sent e) x)"
      by (rule idle_off_Update_Feeds)
    show "\<And>x. idle_off x \<Longrightarrow> idle_off (x\<lparr>lastUpdateCount := countUpdate x\<rparr>)"
      by (simp add: idle_off_def)
  qed
qed

lemma idle_off_run:
  "idle_off s \<Longrightarrow> list_all (\<lambda>e. \<not> pump_command e) es \<Longrightarrow> idle_off (run es s)"
  by (induction es arbitrary: s) (simp_all add: idle_off_loop)

text \<open>
  A pass without a pump command in which no hazard becomes active leaves the pump state
  as it is.
\<close>

lemma pump_waiting_serve_all:
  "pump_waiting p0 c0 q0 s \<Longrightarrow> PumpBtn \<notin> set is \<Longrightarrow> pump_waiting p0 c0 q0 (serve_all is s)"
proof (induction "is" arbitrary: s)
  case Nil
  then show ?case by simp
next
  case (Cons i "is")
  from Cons.prems have "pump_waiting p0 c0 q0 (serve i s)"
    by (cases i)
      (simp_all add: pump_waiting_def countPulse1_def countPulse2_def PumpBtn_Pressed_def
        WarnBtn_Pressed_def CriticalBtn_Pressed_def PipeBtn_Pressed_def)
  with Cons show ?case by simp
qed

lemma pump_waiting_readback:
  "pump_waiting p0 c0 q0 s \<Longrightarrow>
     (case sub of Some (PumpOverrideSub payload) \<Rightarrow> False | _ \<Rightarrow> True) \<Longrightarrow>
     pump_waiting p0 c0 q0 (readbackMQTT sub s)"
  by (auto simp add: pump_waiting_def readbackMQTT_def println_def
      split: option.splits subscription.splits)

lemma kept_or_raised_frame:
  "kept_or_raised p0 c0 q0 x \<Longrightarrow> hz x' = hz x \<Longrightarrow> pm x' = pm x \<Longrightarrow> kept_or_raised p0 c0 q0 x'"
  by (simp add: kept_or_raised_def hz_def pm_def)

lemma waiting_pump_step:
  "pump_waiting p0 c0 q0 x \<Longrightarrow>
     pump_as_before p0 c0 q0
       (if pumpBtnPressed x
        then (ActionPumpOverride now now' x)\<lparr>pumpBtnPressed := False\<rparr> else x)"
  by (simp add: pump_waiting_def pump_as_before_def)

lemma waiting_warn_step:
  "pump_as_before p0 c0 q0 x \<Longrightarrow>
     pump_as_before p0 c0 q0
       (if warnBtnPressed x then (ActionHFSWarn now now' x)\<lparr>warnBtnPressed := False\<rparr> else x)"
  by (simp add: pump_as_before_def ActionHFSWarn_eq)

lemma waiting_critical_step:
  "pump_as_before p0 c0 q0 x \<Longrightarrow>
     kept_or_critical p0 c0 q0
       (if criticalBtnPressed x
        then (ActionHFSCritical now now' x)\<lparr>criticalBtnPressed := False\<rparr> else x)"
  by (auto simp add: pump_as_before_def kept_or_critical_def ActionHFSCritical_eq)

lemma waiting_pipe_step:
  "kept_or_critical p0 c0 q0 x \<Longrightarrow>
     kept_or_raised p0 c0 q0
       (if pipeBtnPressed x then (ActionVFSPipe now now' x)\<lparr>pipeBtnPressed := False\<rparr> else x)"
  by (auto simp add: kept_or_critical_def kept_or_raised_def ActionVFSPipe_eq)

lemma pump_kept_unless_hazard_raised:
  assumes "\<not> pump_command e" and "\<not> pumpBtnPressed s"
  shows "kept_or_raised (statePumpOverride s) (stateHFSCritical s) (stateVFSPipe s) (loop e s)"
proof (rule loop_seq [where
      A = "pump_waiting (statePumpOverride s) (stateHFSCritical s) (stateVFSPipe s)" and
      B = "kept_or_raised (statePumpOverride s) (stateHFSCritical s) (stateVFSPipe s)"])
  show "pump_waiting (statePumpOverride s) (stateHFSCritical s) (stateVFSPipe s) s"
    using assms(2) by (simp add: pump_waiting_def)
next
  fix x assume a: "pump_waiting (statePumpOverride s) (stateHFSCritical s) (stateVFSPipe s) x"
  have n1: "(case inbound e of Some (PumpOverrideSub payload) \<Rightarrow> False | _ \<Rightarrow> True)"
    using assms(1) by (auto simp: pump_command_def split: option.splits subscription.splits)
  have n2: "PumpBtn \<notin> set (early e)"
    using assms(1) by (simp add: pump_command_def)
  have b: "pump_waiting (statePumpOverride s) (stateHFSCritical s) (stateVFSPipe s)
             (serve_all (early e) (readbackMQTT (inbound e) x))"
    by (intro pump_waiting_serve_all pump_waiting_readback a n1 n2)
  show "kept_or_raised (statePumpOverride s) (stateHFSCritical s) (stateVFSPipe s)
          (Action_Btn_Pressed (millis e) (serve_all (early e) (readbackMQTT (inbound e) x)))"
    by (rule Action_Btn_Pressed_seq [where
        A = "pump_waiting (statePumpOverride s) (stateHFSCritical s) (stateVFSPipe s)" and
        B = "pump_as_before (statePumpOverride s) (stateHFSCritical s) (stateVFSPipe s)" and
        C = "pump_as_before (statePumpOverride s) (stateHFSCritical s) (stateVFSPipe s)" and
        D = "kept_or_critical (statePumpOverride s) (stateHFSCritical s) (stateVFSPipe s)"])
      (rule b, erule waiting_pump_step, erule waiting_warn_step, erule waiting_critical_step,
        erule waiting_pipe_step)
next
  fix x assume "kept_or_raised (statePumpOverride s) (stateHFSCritical s) (stateVFSPipe s) x"
  then show "kept_or_raised (statePumpOverride s) (stateHFSCritical s) (stateVFSPipe s)
      (Update_Feeds (millis e) (sent e) (serve_all (late e) x))"
    by (rule kept_or_raised_frame) simp_all
next
  fix x assume "kept_or_raised (statePumpOverride s) (stateHFSCritical s) (stateVFSPipe s) x"
  then show "kept_or_raised (statePumpOverride s) (stateHFSCritical s) (stateVFSPipe s)
      (x\<lparr>lastUpdateCount := countUpdate x\<rparr>)"
    by (rule kept_or_raised_frame) simp_all
qed

text \<open>
  C1, as stated, fails. The first pass raises the critical level and the interlock
  switches the pump off. In the second pass, with the critical level still active, the
  pump button is pressed and the pump is switched on; the third, quiet, pass does not
  touch it: after it the critical level is active and the pump is on.
\<close>

theorem pump_on_while_hazard_active:
  "stateHFSCritical (run [pressing CriticalBtn 1000] init_state) = 1 \<and>
   statePumpOverride (run [pressing CriticalBtn 1000] init_state) = 0 \<and>
   stateHFSCritical (run [pressing CriticalBtn 1000, pressing PumpBtn 2000] init_state) = 1 \<and>
   statePumpOverride (run [pressing CriticalBtn 1000, pressing PumpBtn 2000] init_state) = 1 \<and>
   stateHFSCritical
     (run [pressing CriticalBtn 1000, pressing PumpBtn 2000, quiet 3000] init_state) = 1 \<and>
   statePumpOverride
     (run [pressing CriticalBtn 1000, pressing PumpBtn 2000, quiet 3000] init_state) = 1 \<and>
   ledPumpLevel
     (run [pressing CriticalBtn 1000, pressing PumpBtn 2000, quiet 3000] init_state)"
  by code_simp

text \<open>
  C1, amended: the interlock acts when a hazard becomes active, not on every cycle.
  In the pass of the loop in which the critical level or the overflow level goes from
  0 to 1, the pump is off at the end of the pass, whatever was commanded in it. The
  earlier value is not restored: from a state with the pump off and no pump press
  pending, the pump stays off for as long as no pump command (pump button or remote
  payload) arrives, whether the hazard lasts or clears. And in a pass in which no
  hazard becomes active and no pump command is pending or arrives, the pump state is
  left as it is, also when a hazard is active and the pump is on.
\<close>

theorem interlock_acts_on_hazard_edge:
  "(hazard_raised (run es init_state) (loop e (run es init_state)) \<longrightarrow>
      pump_off (loop e (run es init_state))) \<and>
   (statePumpOverride s = 0 \<and> \<not> pumpBtnPressed s \<and> list_all (\<lambda>e. \<not> pump_command e) es'
      \<longrightarrow> statePumpOverride (run es' s) = 0) \<and>
   (\<not> pump_command e' \<and> \<not> pumpBtnPressed s' \<and> \<not> hazard_raised s' (loop e' s')
      \<longrightarrow> statePumpOverride (loop e' s') = statePumpOverride s')"
proof -
  have "pins_follow (run es init_state)"
    by (rule pins_follow_run) (rule pins_follow_init)
  then have "after_pipe (stateHFSCritical (run es init_state)) (stateVFSPipe (run es init_state))
      (loop e (run es init_state))"
    by (rule hazard_edge_forces_pump_off)
  then have 1: "hazard_raised (run es init_state) (loop e (run es init_state)) \<longrightarrow>
      pump_off (loop e (run es init_state))"
    by (simp add: after_pipe_def hazard_raised_def)
  have 2: "statePumpOverride (run es' s) = 0"
    if "statePumpOverride s = 0" "\<not> pumpBtnPressed s" "list_all (\<lambda>e. \<not> pump_command e) es'"
  proof -
    from that have "idle_off (run es' s)" by (intro idle_off_run) (simp_all add: idle_off_def)
    then show ?thesis by (simp add: idle_off_def)
  qed
  have 3: "statePumpOverride (loop e' s') = statePumpOverride s'"
    if "\<not> pump_command e'" "\<not> pumpBtnPressed s'" "\<not> hazard_raised s' (loop e' s')"
    using pump_kept_unless_hazard_raised [OF that(1,2)] that(3)
    by (auto simp add: kept_or_raised_def hazard_raised_def)
  from 1 2 3 show ?thesis by blast
qed

text \<open>
  A witness: the overflow level rises in a pass that also brings the remote command
  \<open>1\<close>, and the pump is off after it; then the overflow level clears and a quiet pass
  follows, and the pump is still off; and with the critical level active and the pump
  switched on by its button, a quiet pass leaves the pump on.
\<close>

theorem interlock_acts_on_hazard_edge_witness:
  "hazard_raised (run [quiet 1000] init_state)
     (loop \<lparr>inbound = Some (PumpOverrideSub ''1''), early = [PipeBtn], late = [],
             millis = (\<lambda>r. (2000, 2000)), sent = (\<lambda>b f. True)\<rparr> (run [quiet 1000] init_state)) \<and>
   pump_off
     (loop \<lparr>inbound = Some (PumpOverrideSub ''1''), early = [PipeBtn], late = [],
             millis = (\<lambda>r. (2000, 2000)), sent = (\<lambda>b f. True)\<rparr> (run [quiet 1000] init_state)) \<and>
   stateVFSPipe (run [pressing PipeBtn 3000, quiet 4000]
      (run [pressing PipeBtn 2000] init_state)) = 0 \<and>
   statePumpOverride (run [pressing PipeBtn 3000, quiet 4000]
      (run [pressing PipeBtn 2000] init_state)) = 0 \<and>
   stateHFSCritical (run [pressing CriticalBtn 1000, pressing PumpBtn 2000] init_state) = 1 \<and>
   statePumpOverride (run [pressing CriticalBtn 1000, pressing PumpBtn 2000] init_state) = 1 \<and>
   statePumpOverride
     (loop (quiet 3000) (run [pressing CriticalBtn 1000, pressing PumpBtn 2000] init_state)) = 1"
proof -
  have h1: "hazard_raised (run [quiet 1000] init_state)
     (loop \<lparr>inbound = Some (PumpOverrideSub ''1''), early = [PipeBtn], late = [],
             millis = (\<lambda>r. (2000, 2000)), sent = (\<lambda>b f. True)\<rparr> (run [quiet 1000] init_state))"
    by code_simp
  have h2: "statePumpOverride (run [pressing PipeBtn 2000] init_state) = 0 \<and>
      \<not> pumpBtnPressed (run [pressing PipeBtn 2000] init_state) \<and>
      list_all (\<lambda>e. \<not> pump_command e) [pressing PipeBtn 3000, quiet 4000]"
    by code_simp
  have h3: "stateVFSPipe (run [pressing PipeBtn 3000, quiet 4000]
      (run [pressing PipeBtn 2000] init_state)) = 0"
    by code_simp
  have h4: "\<not> pump_command (quiet 3000) \<and>
      \<not> pumpBtnPressed (run [pressing CriticalBtn 1000, pressing PumpBtn 2000] init_state) \<and>
      \<not> hazard_raised (run [pressing CriticalBtn 1000, pressing PumpBtn 2000] init_state)
          (loop (quiet 3000) (run [pressing CriticalBtn 1000, pressing PumpBtn 2000] init_state)) \<and>
      stateHFSCritical (run [pressing CriticalBtn 1000, pressing PumpBtn 2000] init_state) = 1 \<and>
      statePumpOverride (run [pressing CriticalBtn 1000, pressing PumpBtn 2000] init_state) = 1"
    by code_simp
  note t = interlock_acts_on_hazard_edge [of "[quiet 1000]"
        "\<lparr>inbound = Some (PumpOverrideSub ''1''), early = [PipeBtn], late = [],
             millis = (\<lambda>r. (2000, 2000)), sent = (\<lambda>b f. True)\<rparr>"
        "run [pressing PipeBtn 2000] init_state" "[pressing PipeBtn 3000, quiet 4000]"
        "quiet 3000" "run [pressing CriticalBtn 1000, pressing PumpBtn 2000] init_state"]
  from h4 t have "statePumpOverride
     (loop (quiet 3000) (run [pressing CriticalBtn 1000, pressing PumpBtn 2000] init_state))
     = statePumpOverride (run [pressing CriticalBtn 1000, pressing PumpBtn 2000] init_state)"
    by blast
  with h4 have s3: "statePumpOverride
     (loop (quiet 3000) (run [pressing CriticalBtn 1000, pressing PumpBtn 2000] init_state)) = 1"
    by simp
  from h1 h2 h3 h4 s3 t show ?thesis by blast
qed

subsection \<open>Debouncing\<close>

lemma Action_stable:
  "stable_level ch (Action ch now now' s) =
     (if debounceDelay < now - lastDebounce ch s \<and> previous ch s \<noteq> stable_level ch s
      then c_not (stable_level ch s) else stable_level ch s)"
  by (cases ch)
    (simp_all add: ActionPumpOverride_eq ActionHFSWarn_eq ActionHFSCritical_eq ActionVFSPipe_eq
      c_not_def)









subsection \<open>Pulse counters\<close>

lemma drain_eq:
  "drain s = ((count1 s, count2 s),
     s\<lparr>totalPulse1 := totalPulse1 s + count1 s, totalPulse2 := totalPulse2 s + count2 s,
       count1 := 0, count2 := 0\<rparr>)"
  by (simp add: drain_def)

lemma unat_succ_bounded: "unat (c :: 32 word) + 1 < 2 ^ 32 \<Longrightarrow> unat (c + 1) = unat c + 1"
  by (simp add: unat_word_ariths)

lemma drained_count1:
  "unat (count1 s) + count_list xs OnEdge1 < 2 ^ 32 \<Longrightarrow>
     drained_sum1 xs s + unat (count1 (after_ops xs s)) = unat (count1 s) + count_list xs OnEdge1"
proof (induction xs arbitrary: s)
  case Nil
  show ?case by (simp add: drained_sum1_def)
next
  case (Cons x xs)
  show ?case
  proof (cases x)
    case OnEdge1
    from Cons.prems OnEdge1 have b: "unat (count1 s) + 1 < 2 ^ 32" by simp
    have c: "unat (count1 (countPulse1 s)) = unat (count1 s) + 1"
      using unat_succ_bounded [OF b] by (simp add: countPulse1_def)
    have "drained_sum1 xs (countPulse1 s) + unat (count1 (after_ops xs (countPulse1 s)))
        = unat (count1 (countPulse1 s)) + count_list xs OnEdge1"
      using Cons.prems OnEdge1 c by (intro Cons.IH) simp
    then show ?thesis using OnEdge1 c by (simp add: drained_sum1_def)
  next
    case OnEdge2
    have c: "count1 (countPulse2 s) = count1 s" by (simp add: countPulse2_def)
    have "drained_sum1 xs (countPulse2 s) + unat (count1 (after_ops xs (countPulse2 s)))
        = unat (count1 (countPulse2 s)) + count_list xs OnEdge1"
      using Cons.prems OnEdge2 c by (intro Cons.IH) simp
    then show ?thesis using OnEdge2 c by (simp add: drained_sum1_def)
  next
    case Drain
    have c: "count1 (snd (drain s)) = 0" "fst (fst (drain s)) = count1 s"
      by (simp_all add: drain_eq)
    have "drained_sum1 xs (snd (drain s)) + unat (count1 (after_ops xs (snd (drain s))))
        = unat (count1 (snd (drain s))) + count_list xs OnEdge1"
      using Cons.prems Drain c by (intro Cons.IH) simp
    then show ?thesis using Drain c by (simp add: drained_sum1_def)
  qed
qed

lemma drained_count2:
  "unat (count2 s) + count_list xs OnEdge2 < 2 ^ 32 \<Longrightarrow>
     drained_sum2 xs s + unat (count2 (after_ops xs s)) = unat (count2 s) + count_list xs OnEdge2"
proof (induction xs arbitrary: s)
  case Nil
  show ?case by (simp add: drained_sum2_def)
next
  case (Cons x xs)
  show ?case
  proof (cases x)
    case OnEdge2
    from Cons.prems OnEdge2 have b: "unat (count2 s) + 1 < 2 ^ 32" by simp
    have c: "unat (count2 (countPulse2 s)) = unat (count2 s) + 1"
      using unat_succ_bounded [OF b] by (simp add: countPulse2_def)
    have "drained_sum2 xs (countPulse2 s) + unat (count2 (after_ops xs (countPulse2 s)))
        = unat (count2 (countPulse2 s)) + count_list xs OnEdge2"
      using Cons.prems OnEdge2 c by (intro Cons.IH) simp
    then show ?thesis using OnEdge2 c by (simp add: drained_sum2_def)
  next
    case OnEdge1
    have c: "count2 (countPulse1 s) = count2 s" by (simp add: countPulse1_def)
    have "drained_sum2 xs (countPulse1 s) + unat (count2 (after_ops xs (countPulse1 s)))
        = unat (count2 (countPulse1 s)) + count_list xs OnEdge2"
      using Cons.prems OnEdge1 c by (intro Cons.IH) simp
    then show ?thesis using OnEdge1 c by (simp add: drained_sum2_def)
  next
    case Drain
    have c: "count2 (snd (drain s)) = 0" "snd (fst (drain s)) = count2 s"
      by (simp_all add: drain_eq)
    have "drained_sum2 xs (snd (drain s)) + unat (count2 (after_ops xs (snd (drain s))))
        = unat (count2 (snd (drain s))) + count_list xs OnEdge2"
      using Cons.prems Drain c by (intro Cons.IH) simp
    then show ?thesis using Drain c by (simp add: drained_sum2_def)
  qed
qed

lemma after_ops_append: "after_ops (xs @ ys) s = after_ops ys (after_ops xs s)"
  by (induction xs arbitrary: s) simp_all

lemma ends_with_drain:
  "xs \<noteq> [] \<Longrightarrow> last xs = Drain \<Longrightarrow>
     count1 (after_ops xs s) = 0 \<and> count2 (after_ops xs s) = 0"
proof -
  assume "xs \<noteq> []" and "last xs = Drain"
  then have "xs = butlast xs @ [Drain]" by (metis append_butlast_last_id)
  then have "after_ops xs s = snd (drain (after_ops (butlast xs) s))"
    by (metis after_ops.simps(1) after_ops.simps(2) after_ops_append apply_op.simps(3))
  then show ?thesis by (simp add: drain_eq)
qed

lemma totals_are_drained_sums:
  "totalPulse1 (after_ops xs s) = totalPulse1 s + of_nat (drained_sum1 xs s) \<and>
   totalPulse2 (after_ops xs s) = totalPulse2 s + of_nat (drained_sum2 xs s)"
proof (induction xs arbitrary: s)
  case Nil
  show ?case by (simp add: drained_sum1_def drained_sum2_def)
next
  case (Cons x xs)
  show ?case
  proof (cases x)
    case OnEdge1
    then show ?thesis
      using Cons.IH [of "countPulse1 s"]
      by (simp add: drained_sum1_def drained_sum2_def countPulse1_def)
  next
    case OnEdge2
    then show ?thesis
      using Cons.IH [of "countPulse2 s"]
      by (simp add: drained_sum1_def drained_sum2_def countPulse2_def)
  next
    case Drain
    then show ?thesis
      using Cons.IH [of "snd (drain s)"]
      by (simp add: drained_sum1_def drained_sum2_def drain_eq)
  qed
qed

text \<open>
  C5, as stated, fails: of two edges with one drain between them, the second is still
  in the counter, and the drained values add up to 1.
\<close>

theorem undrained_pulse_not_in_sum:
  "count_list [OnEdge1, Drain, OnEdge1] OnEdge1 = 2 \<and>
   drained_sum1 [OnEdge1, Drain, OnEdge1] init_state = 1 \<and>
   count1 (after_ops [OnEdge1, Drain, OnEdge1] init_state) = 1"
  by code_simp

text \<open>
  C5, amended: for every sequence of edges on the two flow lines interleaved with
  drains, starting from the initial state, the sum of the drained values of a counter
  plus the count still held in it equals the number N of its edges, provided N is
  below \<open>2 ^ 32\<close> (the counter is an \<open>unsigned long\<close>): no pulse is lost and none is
  counted twice across a drain. The sum alone equals N when the sequence ends with a
  drain. The lifetime totals hold the sums of the drained values modulo \<open>2 ^ 32\<close>.
\<close>

theorem drained_plus_held_is_edges:
  "(count_list xs OnEdge1 < 2 ^ 32 \<longrightarrow>
      drained_sum1 xs init_state + unat (count1 (after_ops xs init_state))
        = count_list xs OnEdge1) \<and>
   (count_list xs OnEdge2 < 2 ^ 32 \<longrightarrow>
      drained_sum2 xs init_state + unat (count2 (after_ops xs init_state))
        = count_list xs OnEdge2) \<and>
   (xs \<noteq> [] \<and> last xs = Drain \<and> count_list xs OnEdge1 < 2 ^ 32 \<longrightarrow>
      drained_sum1 xs init_state = count_list xs OnEdge1) \<and>
   (xs \<noteq> [] \<and> last xs = Drain \<and> count_list xs OnEdge2 < 2 ^ 32 \<longrightarrow>
      drained_sum2 xs init_state = count_list xs OnEdge2) \<and>
   totalPulse1 (after_ops xs init_state) = of_nat (drained_sum1 xs init_state) \<and>
   totalPulse2 (after_ops xs init_state) = of_nat (drained_sum2 xs init_state)"
proof -
  have 1: "drained_sum1 xs init_state + unat (count1 (after_ops xs init_state))
        = count_list xs OnEdge1" if "count_list xs OnEdge1 < 2 ^ 32"
    using drained_count1 [of init_state xs] that by (simp add: init_state_def)
  have 2: "drained_sum2 xs init_state + unat (count2 (after_ops xs init_state))
        = count_list xs OnEdge2" if "count_list xs OnEdge2 < 2 ^ 32"
    using drained_count2 [of init_state xs] that by (simp add: init_state_def)
  have 3: "drained_sum1 xs init_state = count_list xs OnEdge1"
    if "xs \<noteq> []" "last xs = Drain" "count_list xs OnEdge1 < 2 ^ 32"
    using 1 [OF that(3)] ends_with_drain [OF that(1,2), of init_state] by simp
  have 4: "drained_sum2 xs init_state = count_list xs OnEdge2"
    if "xs \<noteq> []" "last xs = Drain" "count_list xs OnEdge2 < 2 ^ 32"
    using 2 [OF that(3)] ends_with_drain [OF that(1,2), of init_state] by simp
  have 5: "totalPulse1 (after_ops xs init_state) = of_nat (drained_sum1 xs init_state) \<and>
     totalPulse2 (after_ops xs init_state) = of_nat (drained_sum2 xs init_state)"
    using totals_are_drained_sums [of xs init_state] by (simp add: init_state_def)
  from 1 2 3 4 5 show ?thesis by blast
qed

theorem drained_plus_held_is_edges_witness:
  "count_list [OnEdge1, OnEdge2, Drain, OnEdge1, OnEdge1, Drain] OnEdge1 < 2 ^ 32 \<and>
   count_list [OnEdge1, OnEdge2, Drain, OnEdge1, OnEdge1, Drain] OnEdge2 < 2 ^ 32 \<and>
   [OnEdge1, OnEdge2, Drain, OnEdge1, OnEdge1, Drain] \<noteq> [] \<and>
   last [OnEdge1, OnEdge2, Drain, OnEdge1, OnEdge1, Drain] = Drain \<and>
   drained_sum1 [OnEdge1, OnEdge2, Drain, OnEdge1, OnEdge1, Drain] init_state
     = count_list [OnEdge1, OnEdge2, Drain, OnEdge1, OnEdge1, Drain] OnEdge1 \<and>
   drained_sum2 [OnEdge1, OnEdge2, Drain, OnEdge1, OnEdge1, Drain] init_state
     = count_list [OnEdge1, OnEdge2, Drain, OnEdge1, OnEdge1, Drain] OnEdge2"
proof -
  have h: "count_list [OnEdge1, OnEdge2, Drain, OnEdge1, OnEdge1, Drain] OnEdge1 < 2 ^ 32 \<and>
      count_list [OnEdge1, OnEdge2, Drain, OnEdge1, OnEdge1, Drain] OnEdge2 < 2 ^ 32 \<and>
      [OnEdge1, OnEdge2, Drain, OnEdge1, OnEdge1, Drain] \<noteq> [] \<and>
      last [OnEdge1, OnEdge2, Drain, OnEdge1, OnEdge1, Drain] = Drain"
    by simp
  show ?thesis
    using h drained_plus_held_is_edges [of "[OnEdge1, OnEdge2, Drain, OnEdge1, OnEdge1, Drain]"]
    by blast
qed

subsection \<open>The flow tick\<close>

lemma round_even_of_int: "round_even (of_int z) = z"
  by (simp add: round_even_def)

text \<open>
  A value of at least 1 whose double is an integer and whose integer part is below
  \<open>2 ^ 23\<close> is a binary32 number: rounding leaves it as it is.
\<close>

lemma f32_round_exact:
  assumes x1: "1 \<le> x" and small: "\<lfloor>x\<rfloor> < 2 ^ 23" and half: "2 * x = of_int m"
  shows "f32_round x = x"
proof -
  define b where "b = bitlen \<lfloor>x\<rfloor>"
  have b_le: "b \<le> 23"
    unfolding b_def using small by (simp add: bitlen_le_iff_power)
  define j where "j = nat (23 - b)"
  have k: "nat (- (b - 24)) = Suc j" using b_le by (simp add: j_def nat_diff_distrib)
  have p: "pow2 (b - 24) = 1 / 2 ^ Suc j"
    using b_le k by (simp add: pow2_def)
  have q: "x / pow2 (b - 24) = of_int (m * 2 ^ j)"
    using half by (simp add: p mult.assoc [symmetric] mult.commute)
  have r: "round_even (x / pow2 (b - 24)) = m * 2 ^ j"
    by (simp only: q round_even_of_int)
  have s: "(of_int (m * 2 ^ j) :: rat) = 2 * x * 2 ^ j"
    by (simp add: half)
  have "of_int (round_even (x / pow2 (b - 24))) * pow2 (b - 24)
      = of_int (m * 2 ^ j) * (1 / 2 ^ Suc j)"
    by (subst r) (simp only: p)
  also have "\<dots> = x" by (simp only: s) simp
  finally have "of_int (round_even (x / pow2 (b - 24))) * pow2 (b - 24) = x" .
  then show ?thesis
    using x1 by (simp add: f32_round_def Let_def b_def)
qed

lemma pulses_to_litres_exact:
  assumes "unat c < 2 ^ 20"
  shows "pulses_to_litres c = of_nat ((15 * unat c) div 2)"
proof (cases "unat c = 0")
  case True
  then show ?thesis by (simp add: pulses_to_litres_def f32_round_def to_ulong_def)
next
  case False
  define n where "n = unat c"
  have n1: "1 \<le> n" and n20: "n < 2 ^ 20" using False assms by (simp_all add: n_def)
  have a: "f32_round (of_nat n) = of_nat n"
  proof (rule f32_round_exact [where m = "2 * int n"])
    show "1 \<le> (of_nat n :: rat)" using n1 by simp
    show "\<lfloor>of_nat n :: rat\<rfloor> < 2 ^ 23" using n20 by simp
    show "2 * (of_nat n :: rat) = of_int (2 * int n)" by simp
  qed
  have fl: "\<lfloor>of_nat n * litresperpulse\<rfloor> = (15 * int n) div 2"
  proof -
    have "of_nat n * litresperpulse = (of_int (15 * int n) :: rat) / of_int 2"
      by (simp add: litresperpulse_def)
    then show ?thesis by (simp only: floor_divide_of_int_eq)
  qed
  have b: "f32_round (of_nat n * litresperpulse) = of_nat n * litresperpulse"
  proof (rule f32_round_exact [where m = "15 * int n"])
    show "1 \<le> of_nat n * litresperpulse"
      using n1 by (simp add: litresperpulse_def)
    show "\<lfloor>of_nat n * litresperpulse\<rfloor> < 2 ^ 23"
      unfolding fl using n20 by simp
    show "2 * (of_nat n * litresperpulse) = of_int (15 * int n)"
      by (simp add: litresperpulse_def)
  qed
  have "pulses_to_litres c = word_of_int ((15 * int n) div 2)"
    by (simp add: pulses_to_litres_def n_def [symmetric] a b to_ulong_def fl)
  also have "(15 * int n) div 2 = int ((15 * n) div 2)" by (simp add: zdiv_int)
  finally show ?thesis by (simp add: n_def)
qed

lemma litres_value:
  assumes "unat c < 2 ^ 20"
  shows "uint (pulses_to_litres c) = int ((15 * unat c) div 2)"
proof -
  have "(15 * unat c) div 2 < 2 ^ 32" using assms by simp
  then have "unat (of_nat ((15 * unat c) div 2) :: 32 word) = (15 * unat c) div 2"
    by (intro of_nat_inverse [OF refl]) simp
  then show ?thesis
    unfolding pulses_to_litres_exact [OF assms] by (simp only: uint_nat)
qed

text \<open>
  C7, as stated, fails on the conversion: the product is stored in an \<open>unsigned long\<close>,
  so one drained pulse is published as 7 litres, not as \<open>1 * 7.5\<close>.
\<close>

theorem one_pulse_is_published_as_7:
  "count1 (countPulse1 init_state) = 1 \<and>
   trace (UpdateFlowMeters 1000 1000 accepted (countPulse1 init_state)) =
     [Publish PumpInFlowFeed 7 True, Publish PumpReturnFlowFeed 0 True, Print ''.''] \<and>
   (7 :: rat) \<noteq> 1 * litresperpulse"
  by code_simp

text \<open>
  C7, amended: on every flow tick (30000 ms or more since the last one, or the first
  pass) \<open>UpdateFlowMeters\<close> drains both counters to zero, adds the drained pulse counts
  to the lifetime pulse totals, and publishes for each counter the product
  \<open>pulses * litresperpulse\<close> converted to \<open>unsigned long\<close>, whether or not the count is
  zero and whatever the first publish returned. The value published is the integer
  part of \<open>pulses * 7.5\<close>, that is \<open>15 * pulses div 2\<close>; this is stated for counts below
  \<open>2 ^ 20\<close>, where the binary32 product is exact. Off a tick the function does nothing.
\<close>

theorem flow_tick_drains_and_publishes:
  "(30000 \<le> now - lastPrint s \<or> firstUpdate s \<longrightarrow>
      count1 (UpdateFlowMeters now now' ok s) = 0 \<and>
      count2 (UpdateFlowMeters now now' ok s) = 0 \<and>
      totalPulse1 (UpdateFlowMeters now now' ok s) = totalPulse1 s + count1 s \<and>
      totalPulse2 (UpdateFlowMeters now now' ok s) = totalPulse2 s + count2 s \<and>
      lastPrint (UpdateFlowMeters now now' ok s) = now' \<and>
      trace (UpdateFlowMeters now now' ok s) =
        trace s @ attempt PumpInFlowFeed (uint (pulses_to_litres (count1 s))) ok
          @ attempt PumpReturnFlowFeed (uint (pulses_to_litres (count2 s))) ok
          @ [Print ''.'']) \<and>
   (unat c < 2 ^ 20 \<longrightarrow> uint (pulses_to_litres c) = int ((15 * unat c) div 2)) \<and>
   (now - lastPrint s < 30000 \<and> firstUpdate s = False \<longrightarrow>
      UpdateFlowMeters now now' ok s = s)"
  by (simp add: UpdateFlowMeters_eq flow_events_def litres_value not_le [symmetric])

text \<open>
  A witness: three pulses on the first line, none on the second, first pass; and a
  second call one second later, off the tick.
\<close>

theorem flow_tick_drains_and_publishes_witness:
  "firstUpdate (after_ops [OnEdge1, OnEdge1, OnEdge1] init_state) \<and>
   unat (3 :: 32 word) < 2 ^ 20 \<and>
   count1 (after_ops [OnEdge1, OnEdge1, OnEdge1] init_state) = 3 \<and>
   uint (pulses_to_litres 3) = 22 \<and>
   count1 (UpdateFlowMeters 1000 1000 accepted
      (after_ops [OnEdge1, OnEdge1, OnEdge1] init_state)) = 0 \<and>
   totalPulse1 (UpdateFlowMeters 1000 1000 accepted
      (after_ops [OnEdge1, OnEdge1, OnEdge1] init_state)) = 3 \<and>
   trace (UpdateFlowMeters 1000 1000 accepted
      (after_ops [OnEdge1, OnEdge1, OnEdge1] init_state)) =
     [Publish PumpInFlowFeed 22 True, Publish PumpReturnFlowFeed 0 True, Print ''.''] \<and>
   UpdateFlowMeters 2000 2000 accepted (run [quiet 1000] init_state)
     = run [quiet 1000] init_state"
proof -
  have h1: "firstUpdate (after_ops [OnEdge1, OnEdge1, OnEdge1] init_state) \<and>
      count1 (after_ops [OnEdge1, OnEdge1, OnEdge1] init_state) = 3 \<and>
      count2 (after_ops [OnEdge1, OnEdge1, OnEdge1] init_state) = 0 \<and>
      totalPulse1 (after_ops [OnEdge1, OnEdge1, OnEdge1] init_state) = 0 \<and>
      trace (after_ops [OnEdge1, OnEdge1, OnEdge1] init_state) = []"
    by code_simp
  have h2: "2000 - lastPrint (run [quiet 1000] init_state) < 30000 \<and>
      firstUpdate (run [quiet 1000] init_state) = False"
    by code_simp
  have h3: "unat (3 :: 32 word) < 2 ^ 20" "unat (0 :: 32 word) < 2 ^ 20" by simp_all
  note t1 = flow_tick_drains_and_publishes [of 1000
        "after_ops [OnEdge1, OnEdge1, OnEdge1] init_state" 1000 accepted 3]
  note t0 = flow_tick_drains_and_publishes [of 1000
        "after_ops [OnEdge1, OnEdge1, OnEdge1] init_state" 1000 accepted 0]
  note t2 = flow_tick_drains_and_publishes [of 2000 "run [quiet 1000] init_state" 2000
        accepted 3]
  from h3 t1 have v3: "uint (pulses_to_litres 3) = 22" by simp
  from h3 t0 have v0: "uint (pulses_to_litres 0) = 0" by simp
  from h1 t1 have "trace (UpdateFlowMeters 1000 1000 accepted
      (after_ops [OnEdge1, OnEdge1, OnEdge1] init_state)) =
     [Publish PumpInFlowFeed 22 True, Publish PumpReturnFlowFeed 0 True, Print ''.'']"
    by (simp add: v3 v0 attempt_def accepted_def)
  moreover from h1 t1 have "count1 (UpdateFlowMeters 1000 1000 accepted
      (after_ops [OnEdge1, OnEdge1, OnEdge1] init_state)) = 0 \<and>
    totalPulse1 (UpdateFlowMeters 1000 1000 accepted
      (after_ops [OnEdge1, OnEdge1, OnEdge1] init_state)) = 3"
    by simp
  moreover from h2 t2 have "UpdateFlowMeters 2000 2000 accepted (run [quiet 1000] init_state)
     = run [quiet 1000] init_state"
    by blast
  ultimately show ?thesis using h1 h3 v3 by simp
qed

subsection \<open>The telemetry scheduler\<close>

lemma published_append [simp]: "published f (xs @ ys) = published f xs + published f ys"
  by (induction xs rule: published.induct) simp_all

lemma published_attempt [simp]: "published f (attempt g v ok) = (if g = f then 1 else 0)"
  by (simp add: attempt_def)

lemma published_given [simp]: "published f (given b xs) = (if b then published f xs else 0)"
  by (simp add: given_def)

lemma published_command_log [simp]: "published f (command_log payload) = 0"
  by (simp add: command_log_def)

lemma attempts_append [simp]: "attempts (xs @ ys) = attempts xs @ attempts ys"
  by (induction xs rule: attempts.induct) simp_all

lemma attempts_attempt [simp]: "attempts (attempt f v ok) = [(f, v)]"
  by (simp add: attempt_def)

lemma attempts_given [simp]: "attempts (given b xs) = (if b then attempts xs else [])"
  by (simp add: given_def)

lemma flag_sensors_immediate: "flag ch (sensors_immediate ok s) = flag ch s"
  by (cases ch) (simp_all add: sensors_immediate_eq)

lemma flag_sensors_periodic:
  "flag ch (sensors_periodic now now' ok s)
     = (if 5000 \<le> now - lastUpdate s \<and> \<not> triggered s then False else flag ch s)"
  by (cases ch) (simp_all add: sensors_periodic_eq)

text \<open>The results of the publishes show in the log only.\<close>

lemma UpdateSensors_results:
  "(UpdateSensors now now' imm per s)\<lparr>trace := []\<rparr>
     = (UpdateSensors now now' imm' per' s)\<lparr>trace := []\<rparr> \<and>
   attempts (trace (UpdateSensors now now' imm per s))
     = attempts (trace (UpdateSensors now now' imm' per' s))"
  by (simp add: UpdateSensors_def sensors_immediate_eq sensors_periodic_eq immediate_events_def
      periodic_events_def pump_due_def)

text \<open>
  C8, as stated, fails in its last part. The second pass below is not the first cycle;
  the warning switch has toggled, every publish of the pass is rejected and logged, and
  the warning's dirty flag is still set after the attempt.
\<close>

theorem flag_stays_set_on_later_cycle:
  "firstUpdate (run [quiet 1000] init_state) = False \<and>
   trace (run [quiet 1000, pressing_offline WarnBtn 2000] init_state) =
     trace (run [quiet 1000] init_state) @
     [Publish PumpOverride 1 False, Println ''Failed to publish pump status'',
      Publish ReservoirWarn 1 False, Println ''Failed to publish HFSWarn'',
      Publish ReservoirCritical 0 False, Println ''Failed to pubish HFSCritical'',
      Publish PipeOverflowWarning 0 False, Println ''Failed to publish VFSPipe Overflow''] \<and>
   trgHFSWarn (run [quiet 1000, pressing_offline WarnBtn 2000] init_state)"
  by code_simp

text \<open>
  C8, amended: every publish is attempted once; a failure is followed by its line on
  the serial log and changes nothing else, so no attempt is repeated because it failed.
  In the periodic (5 s) block every dirty flag is clear afterwards, whether the
  publishes succeeded or not. The immediate block, which runs on the first cycle and
  on every cycle in which an edge or command is pending (\<open>triggered\<close>), does not touch
  the dirty flags: a flag that is set stays set after that block's attempt.
\<close>

theorem publish_failures_logged_not_retried:
  "trace (sensors_immediate ok s)
     = trace s @ given (firstUpdate s \<or> triggered s) (immediate_events ok s) \<and>
   flag ch (sensors_immediate ok s) = flag ch s \<and>
   (5000 \<le> now - lastUpdate s \<and> triggered s = False \<longrightarrow>
      trace (sensors_periodic now now' ok s) = trace s @ periodic_events ok s \<and>
      flag ch (sensors_periodic now now' ok s) = False) \<and>
   (now - lastUpdate s < 5000 \<longrightarrow> sensors_periodic now now' ok s = s) \<and>
   (UpdateSensors now now' imm per s)\<lparr>trace := []\<rparr>
     = (UpdateSensors now now' imm' per' s)\<lparr>trace := []\<rparr> \<and>
   attempts (trace (UpdateSensors now now' imm per s))
     = attempts (trace (UpdateSensors now now' imm' per' s))"
proof -
  have 1: "trace (sensors_immediate ok s)
     = trace s @ given (firstUpdate s \<or> triggered s) (immediate_events ok s)"
    by (simp add: sensors_immediate_eq given_def)
  have 2: "5000 \<le> now - lastUpdate s \<and> triggered s = False \<longrightarrow>
      trace (sensors_periodic now now' ok s) = trace s @ periodic_events ok s \<and>
      flag ch (sensors_periodic now now' ok s) = False"
    by (simp add: flag_sensors_periodic) (simp add: sensors_periodic_eq)
  have 3: "now - lastUpdate s < 5000 \<longrightarrow> sensors_periodic now now' ok s = s"
    by (simp add: sensors_periodic_eq not_le [symmetric])
  from 1 2 3 flag_sensors_immediate [of ch ok s]
    UpdateSensors_results [of now now' imm per s imm' per']
  show ?thesis by blast
qed

text \<open>
  A witness: after the warning switch has toggled, the periodic block six seconds
  after start publishes the warning, is rejected, logs it and clears the flag.
\<close>

theorem publish_failures_logged_not_retried_witness:
  "5000 \<le> 6000 - lastUpdate (run [quiet 1000, pressing WarnBtn 2000] init_state) \<and>
   triggered (run [quiet 1000, pressing WarnBtn 2000] init_state) = False \<and>
   flag Warn (run [quiet 1000, pressing WarnBtn 2000] init_state) \<and>
   trace (sensors_periodic 6000 6000 rejected
           (run [quiet 1000, pressing WarnBtn 2000] init_state))
     = trace (run [quiet 1000, pressing WarnBtn 2000] init_state) @
       [Publish ReservoirWarn 1 False, Println ''Failed to publish HFSWarn'', Print '':''] \<and>
   flag Warn (sensors_periodic 6000 6000 rejected
           (run [quiet 1000, pressing WarnBtn 2000] init_state)) = False"
proof -
  have h: "5000 \<le> 6000 - lastUpdate (run [quiet 1000, pressing WarnBtn 2000] init_state) \<and>
      triggered (run [quiet 1000, pressing WarnBtn 2000] init_state) = False \<and>
      flag Warn (run [quiet 1000, pressing WarnBtn 2000] init_state)"
    by code_simp
  have p: "periodic_events rejected (run [quiet 1000, pressing WarnBtn 2000] init_state)
      = [Publish ReservoirWarn 1 False, Println ''Failed to publish HFSWarn'', Print '':'']"
    by code_simp
  show ?thesis
    using h p
      publish_failures_logged_not_retried [of rejected
        "run [quiet 1000, pressing WarnBtn 2000] init_state" Warn 6000 6000]
    by simp
qed

subsection \<open>The first cycle\<close>

lemma Update_Feeds_first:
  "firstUpdate s \<Longrightarrow>
     trace (Update_Feeds clk ok s) =
       trace s @ [Println ''First update!''] @ flow_events (ok Flow) s
         @ immediate_events (ok Immediate) s
         @ given (5000 \<le> fst (clk RSensors) - lastUpdate s) (periodic_events (ok Periodic) s)"
  by (simp add: Update_Feeds_def UpdateSensors_def Let_def println_def UpdateFlowMeters_eq
      sensors_immediate_eq sensors_periodic_eq flow_events_def immediate_events_def
      periodic_events_def pump_due_def given_def)

lemma published_flow_events:
  "published f (flow_events ok s) = (if f = PumpInFlowFeed \<or> f = PumpReturnFlowFeed then 1 else 0)"
  by (cases f) (simp_all add: flow_events_def)

lemma published_immediate_events:
  "published f (immediate_events ok s) = (if switch_feed f then 1 else 0)"
  by (cases f) (simp_all add: immediate_events_def switch_feed_def)

lemma published_periodic_events:
  "published f (periodic_events ok s) =
     (case f of ReservoirWarn \<Rightarrow> of_bool (trgHFSWarn s)
      | ReservoirCritical \<Rightarrow> of_bool (trgHFSCritical s)
      | PipeOverflowWarning \<Rightarrow> of_bool (trgVFSPipe s)
      | PumpOverride \<Rightarrow> of_bool (pump_due s)
      | _ \<Rightarrow> 0)"
  by (cases f) (simp_all add: periodic_events_def)

lemma fresh_serve_all: "fresh s \<Longrightarrow> fresh (serve_all is s)"
proof (rule serve_all_rule [where I = fresh])
  fix i x assume "fresh x"
  then show "fresh (serve i x)"
    by (cases i)
      (simp_all add: fresh_def countPulse1_def countPulse2_def PumpBtn_Pressed_def
        WarnBtn_Pressed_def CriticalBtn_Pressed_def PipeBtn_Pressed_def)
qed

lemma fresh_readback: "fresh s \<Longrightarrow> fresh (readbackMQTT sub s)"
proof -
  assume a: "fresh s"
  show ?thesis
  proof (cases sub rule: subscription_cases)
    case 1
    then show ?thesis using a by (simp add: readbackMQTT_def)
  next
    case 2
    show ?thesis unfolding 2 using a by (simp add: readbackMQTT_def println_def fresh_def)
  next
    case 3
    show ?thesis unfolding 3 using a by (simp add: readback_pump fresh_def)
  qed
qed

lemma fresh_Action_Btn_Pressed: "fresh s \<Longrightarrow> fresh (Action_Btn_Pressed clk s)"
proof (rule Action_Btn_Pressed_rule [where I = fresh])
  show "\<And>x. fresh x \<Longrightarrow> pumpBtnPressed x \<Longrightarrow>
           fresh ((ActionPumpOverride (fst (clk RPump)) (snd (clk RPump)) x)
              \<lparr>pumpBtnPressed := False\<rparr>)"
    by (simp add: ActionPumpOverride_eq fresh_def)
  show "\<And>x. fresh x \<Longrightarrow> warnBtnPressed x \<Longrightarrow>
           fresh ((ActionHFSWarn (fst (clk RWarn)) (snd (clk RWarn)) x)
              \<lparr>warnBtnPressed := False\<rparr>)"
    by (simp add: ActionHFSWarn_eq fresh_def)
  show "\<And>x. fresh x \<Longrightarrow> criticalBtnPressed x \<Longrightarrow>
           fresh ((ActionHFSCritical (fst (clk RCritical)) (snd (clk RCritical)) x)
              \<lparr>criticalBtnPressed := False\<rparr>)"
    by (simp add: ActionHFSCritical_eq fresh_def)
  show "\<And>x. fresh x \<Longrightarrow> pipeBtnPressed x \<Longrightarrow>
           fresh ((ActionVFSPipe (fst (clk RPipe)) (snd (clk RPipe)) x)
              \<lparr>pipeBtnPressed := False\<rparr>)"
    by (simp add: ActionVFSPipe_eq fresh_def)
qed

lemma fresh_before_feeds: "fresh s \<Longrightarrow> fresh (before_feeds e s)"
  unfolding before_feeds_def
  by (intro fresh_serve_all fresh_Action_Btn_Pressed fresh_readback)

lemma fresh_init: "fresh init_state"
  by (simp add: fresh_def init_state_def)

lemma trace_loop:
  "trace (loop e s) = trace (Update_Feeds (millis e) (sent e) (before_feeds e s))"
  by (simp add: loop_def before_feeds_def Let_def)

lemma first_cycle_count:
  assumes "fresh s"
  shows "published f (trace (loop e s)) =
     (if f = PumpInFlowFeed \<or> f = PumpReturnFlowFeed then 1 else 0)
     + (if switch_feed f then 1 else 0)
     + (if 5000 \<le> fst (millis e RSensors)
        then published f (periodic_events (sent e Periodic) (before_feeds e s)) else 0)"
proof -
  have b: "fresh (before_feeds e s)" using assms by (rule fresh_before_feeds)
  then have "firstUpdate (before_feeds e s)" and "lastUpdate (before_feeds e s) = 0"
    and "published f (trace (before_feeds e s)) = 0"
    by (simp_all add: fresh_def)
  then show ?thesis
    by (simp add: trace_loop Update_Feeds_first published_flow_events published_immediate_events)
qed

lemma no_input_no_flag:
  assumes "inbound e = None" and "early e = []"
  shows "flag ch (before_feeds e init_state) = False"
proof -
  have a: "Action_Btn_Pressed (millis e) init_state = init_state"
    by (simp add: Action_Btn_Pressed_def init_state_def)
  have "flag ch (serve_all is s) = flag ch s" for "is" s
  proof (induction "is" arbitrary: s)
    case Nil
    show ?case by simp
  next
    case (Cons i "is")
    have "flag ch (serve i s) = flag ch s"
      by (cases i; cases ch)
        (simp_all add: countPulse1_def countPulse2_def PumpBtn_Pressed_def
          WarnBtn_Pressed_def CriticalBtn_Pressed_def PipeBtn_Pressed_def)
    with Cons.IH [of "serve i s"] show ?case by simp
  qed
  then have "flag ch (before_feeds e init_state) = flag ch init_state"
    using assms by (simp add: before_feeds_def readbackMQTT_def a)
  then show ?thesis by (cases ch) (simp_all add: init_state_def)
qed

text \<open>
  C6, as stated, fails. The warning switch toggles before the first pass reaches the
  scheduler, six seconds after start: the immediate block publishes the warning level
  and the periodic block, whose 5 s have passed, publishes it again in the same pass.
\<close>

theorem first_cycle_publishes_warning_twice:
  "trace (loop (pressing WarnBtn 6000) init_state) =
     [Println ''First update!'', Publish PumpInFlowFeed 0 True,
      Publish PumpReturnFlowFeed 0 True, Print ''.'',
      Publish PumpOverride 1 True, Publish ReservoirWarn 1 True,
      Publish ReservoirCritical 0 True, Publish PipeOverflowWarning 0 True,
      Publish ReservoirWarn 1 True, Print '':''] \<and>
   published ReservoirWarn (trace (loop (pressing WarnBtn 6000) init_state)) = 2"
  by code_simp

text \<open>
  C6, amended: on the very first control cycle the two flow quantities are published
  exactly once and each of the four switch quantities at least once, whatever the 30 s
  and 5 s timers say. A switch quantity is published a second time in that cycle when
  5000 ms or more have passed since start and its dirty flag was set by a button or a
  remote command handled earlier in the cycle (for the pump also when the critical or
  overflow level is published active by the periodic block); otherwise exactly once. In
  particular all six are published exactly once when the first cycle runs before 5000
  ms, or when no command and no interrupt came before it.
\<close>

theorem first_cycle_publishes_all_six:
  "published PumpInFlowFeed (trace (loop e init_state)) = 1 \<and>
   published PumpReturnFlowFeed (trace (loop e init_state)) = 1 \<and>
   published ReservoirWarn (trace (loop e init_state)) =
     (if 5000 \<le> fst (millis e RSensors) \<and> trgHFSWarn (before_feeds e init_state)
      then 2 else 1) \<and>
   published ReservoirCritical (trace (loop e init_state)) =
     (if 5000 \<le> fst (millis e RSensors) \<and> trgHFSCritical (before_feeds e init_state)
      then 2 else 1) \<and>
   published PipeOverflowWarning (trace (loop e init_state)) =
     (if 5000 \<le> fst (millis e RSensors) \<and> trgVFSPipe (before_feeds e init_state)
      then 2 else 1) \<and>
   published PumpOverride (trace (loop e init_state)) =
     (if 5000 \<le> fst (millis e RSensors) \<and> pump_due (before_feeds e init_state)
      then 2 else 1) \<and>
   (fst (millis e RSensors) < 5000 \<or> (inbound e = None \<and> early e = []) \<longrightarrow>
      (\<forall>f. published f (trace (loop e init_state)) = 1))"
proof -
  note c = first_cycle_count [OF fresh_init, of _ e]
  have 1: "published PumpInFlowFeed (trace (loop e init_state)) = 1"
    and 2: "published PumpReturnFlowFeed (trace (loop e init_state)) = 1"
    and 3: "published ReservoirWarn (trace (loop e init_state)) =
     (if 5000 \<le> fst (millis e RSensors) \<and> trgHFSWarn (before_feeds e init_state)
      then 2 else 1)"
    and 4: "published ReservoirCritical (trace (loop e init_state)) =
     (if 5000 \<le> fst (millis e RSensors) \<and> trgHFSCritical (before_feeds e init_state)
      then 2 else 1)"
    and 5: "published PipeOverflowWarning (trace (loop e init_state)) =
     (if 5000 \<le> fst (millis e RSensors) \<and> trgVFSPipe (before_feeds e init_state)
      then 2 else 1)"
    and 6: "published PumpOverride (trace (loop e init_state)) =
     (if 5000 \<le> fst (millis e RSensors) \<and> pump_due (before_feeds e init_state)
      then 2 else 1)"
    by (simp_all add: c published_periodic_events switch_feed_def)
  have 7: "published f (trace (loop e init_state)) = 1"
    if "fst (millis e RSensors) < 5000 \<or> (inbound e = None \<and> early e = [])" for f
  proof -
    from that consider "fst (millis e RSensors) < 5000" | "inbound e = None" "early e = []"
      by auto
    then show ?thesis
    proof cases
      case 1
      then have "\<not> 5000 \<le> fst (millis e RSensors)" by simp
      then show ?thesis by (cases f) (simp_all add: c switch_feed_def)
    next
      case 2
      note n = no_input_no_flag [OF 2, of Pump] no_input_no_flag [OF 2, of Warn]
        no_input_no_flag [OF 2, of Critical] no_input_no_flag [OF 2, of Pipe]
      show ?thesis
        using n
        by (cases f) (simp_all add: c published_periodic_events switch_feed_def pump_due_def)
    qed
  qed
  from 1 2 3 4 5 6 7 show ?thesis by blast
qed

theorem first_cycle_publishes_all_six_witness:
  "(fst (millis (pressing WarnBtn 1000) RSensors) < 5000 \<or>
      (inbound (pressing WarnBtn 1000) = None \<and> early (pressing WarnBtn 1000) = [])) \<and>
   published PumpInFlowFeed (trace (loop (pressing WarnBtn 1000) init_state)) = 1 \<and>
   published PumpReturnFlowFeed (trace (loop (pressing WarnBtn 1000) init_state)) = 1 \<and>
   published ReservoirWarn (trace (loop (pressing WarnBtn 1000) init_state)) = 1 \<and>
   published ReservoirCritical (trace (loop (pressing WarnBtn 1000) init_state)) = 1 \<and>
   published PipeOverflowWarning (trace (loop (pressing WarnBtn 1000) init_state)) = 1 \<and>
   published PumpOverride (trace (loop (pressing WarnBtn 1000) init_state)) = 1"
proof -
  have h: "fst (millis (pressing WarnBtn 1000) RSensors) < 5000"
    by code_simp
  show ?thesis
    using h first_cycle_publishes_all_six [of "pressing WarnBtn 1000"]
    by simp
qed

subsection \<open>Dirty flags and repeated values\<close>

lemma flag_Action:
  "flag ch' (Action ch now now' s) =
     (if ch' = ch \<and> debounceDelay < now - lastDebounce ch s \<and> previous ch s \<noteq> stable_level ch s
      then True else flag ch' s)"
  by (cases ch; cases ch')
    (simp_all add: ActionPumpOverride_eq ActionHFSWarn_eq ActionHFSCritical_eq ActionVFSPipe_eq)

lemma flag_raised_by_Action:
  assumes "flag ch' (Action ch now now' s)" and "\<not> flag ch' s"
  shows "ch' = ch \<and> stable_level ch (Action ch now now' s) \<noteq> stable_level ch s"
proof -
  from assms have c: "ch' = ch" and g: "debounceDelay < now - lastDebounce ch s"
    and p: "previous ch s \<noteq> stable_level ch s"
    by (simp_all add: flag_Action split: if_splits)
  from g p have "stable_level ch (Action ch now now' s) = c_not (stable_level ch s)"
    by (simp add: Action_stable)
  then show ?thesis using c by (simp add: c_not_def)
qed

lemma flag_raised_by_readback:
  assumes "flag ch (readbackMQTT sub s)" and "\<not> flag ch s"
  shows "ch = Pump \<and> statePumpOverride (readbackMQTT sub s) \<noteq> statePumpOverride s"
proof (cases sub rule: subscription_cases)
  case 1
  then show ?thesis using assms by (simp add: readbackMQTT_def)
next
  case 2
  then show ?thesis using assms by (cases ch) (simp_all add: readbackMQTT_def println_def)
next
  case 3
  then show ?thesis using assms by (cases ch) (simp_all add: readback_pump split: if_splits)
qed

lemma flag_ActionPumpControl: "flag ch (ActionPumpControl s) = flag ch s"
  by (cases ch) (simp_all add: ActionPumpControl_def set_pin_def)

lemma flag_serve: "flag ch (serve i s) = flag ch s"
  by (cases i; cases ch)
    (simp_all add: countPulse1_def countPulse2_def PumpBtn_Pressed_def
      WarnBtn_Pressed_def CriticalBtn_Pressed_def PipeBtn_Pressed_def)

lemma flag_UpdateFlowMeters: "flag ch (UpdateFlowMeters now now' ok s) = flag ch s"
  by (cases ch) (simp_all add: UpdateFlowMeters_eq)

lemma flag_UpdateSensors: "flag ch (UpdateSensors now now' imm per s) \<Longrightarrow> flag ch s"
  by (simp add: UpdateSensors_def flag_sensors_periodic flag_sensors_immediate split: if_splits)

text \<open>
  C9, as stated, fails. In the second pass the warning switch toggles, and the
  immediate block publishes all four switch quantities: the pump, critical and overflow
  values of the first pass are sent again unchanged. In the third pass nothing happens
  to any switch, and the periodic block sends the warning value 1 a second time.
\<close>

theorem unchanged_values_published_again:
  "trace (run [quiet 1000, pressing WarnBtn 2000, quiet 6000] init_state) =
     [Println ''First update!'',
      Publish PumpInFlowFeed 0 True, Publish PumpReturnFlowFeed 0 True, Print ''.'',
      Publish PumpOverride 1 True, Publish ReservoirWarn 0 True,
      Publish ReservoirCritical 0 True, Publish PipeOverflowWarning 0 True,
      Publish PumpOverride 1 True, Publish ReservoirWarn 1 True,
      Publish ReservoirCritical 0 True, Publish PipeOverflowWarning 0 True,
      Publish ReservoirWarn 1 True, Print '':''] \<and>
   stateHFSWarn (run [quiet 1000, pressing WarnBtn 2000] init_state) = 1 \<and>
   stateHFSWarn (run [quiet 1000, pressing WarnBtn 2000, quiet 6000] init_state) = 1 \<and>
   statePumpOverride (run [quiet 1000] init_state) = 1 \<and>
   statePumpOverride (run [quiet 1000, pressing WarnBtn 2000] init_state) = 1"
  by code_simp

text \<open>
  C9, amended: a quantity's dirty flag is raised only when the quantity's own handler
  commits a level change or, for the pump, when a remote command changes the pump
  state; the interlock's forced pump-off, the interrupt routines and the flow tick
  raise none, and the scheduler leaves none raised that was not raised before. That
  does not keep a value from being published twice without a change in between:
  whenever an edge or command is pending (\<open>triggered\<close>) the immediate block publishes
  all four switch quantities, the periodic block publishes a flagged quantity once
  more when its 5 s have passed, and it publishes the pump state whenever it publishes
  an active critical or overflow level.
\<close>

theorem dirty_flags_raised_on_change:
  "(flag ch' (Action ch now now' s) \<and> \<not> flag ch' s \<longrightarrow>
      ch' = ch \<and> stable_level ch (Action ch now now' s) \<noteq> stable_level ch s) \<and>
   (flag ch (readbackMQTT sub s) \<and> \<not> flag ch s \<longrightarrow>
      ch = Pump \<and> statePumpOverride (readbackMQTT sub s) \<noteq> statePumpOverride s) \<and>
   flag ch (ActionPumpControl s) = flag ch s \<and>
   flag ch (serve i s) = flag ch s \<and>
   flag ch (UpdateFlowMeters now now' ok s) = flag ch s \<and>
   (flag ch (UpdateSensors now now' imm per s) \<longrightarrow> flag ch s) \<and>
   (triggered s \<and> switch_feed f \<longrightarrow>
      published f (trace (sensors_immediate ok s)) = published f (trace s) + 1) \<and>
   (5000 \<le> now - lastUpdate s \<and> triggered s = False \<and> pump_due s \<longrightarrow>
      published PumpOverride (trace (sensors_periodic now now' ok s))
        = published PumpOverride (trace s) + 1)"
proof -
  have 1: "triggered s \<and> switch_feed f \<longrightarrow>
      published f (trace (sensors_immediate ok s)) = published f (trace s) + 1"
    by (simp add: sensors_immediate_eq published_immediate_events)
  have 2: "5000 \<le> now - lastUpdate s \<and> triggered s = False \<and> pump_due s \<longrightarrow>
      published PumpOverride (trace (sensors_periodic now now' ok s))
        = published PumpOverride (trace s) + 1"
    by (simp add: sensors_periodic_eq published_periodic_events)
  from 1 2 flag_raised_by_Action [of ch' ch now now' s] flag_raised_by_readback [of ch sub s]
    flag_ActionPumpControl [of ch s] flag_serve [of ch i s]
    flag_UpdateFlowMeters [of ch now now' ok s] flag_UpdateSensors [of ch now now' imm per s]
  show ?thesis by blast
qed

text \<open>
  A witness: in the initial state a call of the warning handler after 200 ms raises
  the warning flag and changes the warning level; the payload \<open>0\<close> raises the pump flag
  and changes the pump state; with an edge pending, the immediate block publishes the
  unchanged overflow level.
\<close>

theorem dirty_flags_raised_on_change_witness:
  "flag Warn (Action Warn 200 200 init_state) \<and> flag Warn init_state = False \<and>
   stable_level Warn (Action Warn 200 200 init_state) \<noteq> stable_level Warn init_state \<and>
   flag Pump (readbackMQTT (Some (PumpOverrideSub ''0'')) init_state) \<and>
   flag Pump init_state = False \<and>
   statePumpOverride (readbackMQTT (Some (PumpOverrideSub ''0'')) init_state)
     \<noteq> statePumpOverride init_state \<and>
   triggered (Action Warn 200 200 init_state) \<and> switch_feed PipeOverflowWarning \<and>
   published PipeOverflowWarning (trace (sensors_immediate accepted (Action Warn 200 200 init_state)))
     = published PipeOverflowWarning (trace (Action Warn 200 200 init_state)) + 1"
proof -
  have h: "flag Warn (Action Warn 200 200 init_state) \<and> flag Warn init_state = False \<and>
      flag Pump (readbackMQTT (Some (PumpOverrideSub ''0'')) init_state) \<and>
      flag Pump init_state = False \<and>
      triggered (Action Warn 200 200 init_state) \<and> switch_feed PipeOverflowWarning"
    by code_simp
  show ?thesis
    using h
      dirty_flags_raised_on_change [of Warn Warn 200 200 init_state None CountPulse1
        accepted accepted accepted PipeOverflowWarning]
      dirty_flags_raised_on_change [of Pump Pump 200 200 init_state
        "Some (PumpOverrideSub ''0'')" CountPulse1 accepted accepted accepted
        PipeOverflowWarning]
      dirty_flags_raised_on_change [of Pump Pump 200 200 "Action Warn 200 200 init_state"
        None CountPulse1 accepted accepted accepted PipeOverflowWarning]
    by blast
qed

end
